theory Spec2Isabelle
  imports Main "HOL-Library.AList" "HOL-Library.Multiset" "HOL-Library.Monad_Syntax"
begin

section \<open>Python values, documents and errors\<close>

text \<open>
  A document is a Python \<open>dict\<close> with string keys. It is kept as an association list in
  insertion order, which is the order a Python dict iterates in: \<open>AList.update\<close> replaces
  the value of a key that is present in place and appends a new key at the end, as
  \<open>d[k] = v\<close> does, and \<open>AList.delete\<close> is \<open>del d[k]\<close>. The values are the fragment of
  Python's values that the stores handle here: \<open>None\<close>, booleans, integers, strings and
  nested dicts.
\<close>

datatype val =
    VNone
  | VBool bool
  | VInt int
  | VStr string
  | VDict "(string \<times> val) list"

type_synonym doc = "(string \<times> val) list"

datatype error =
    KeyError string
  | TypeError
  | ParamValidationError
  | ValueError
  | AttributeError
  | OverflowError
  | RuntimeError
  | ClientError val
  | LibError string

text \<open>\<open>d[k]\<close>: raises \<open>KeyError\<close> when the key is missing.\<close>

definition getitem :: "doc \<Rightarrow> string \<Rightarrow> error + val" where
  "getitem d k = (case map_of d k of None \<Rightarrow> Inl (KeyError k) | Some v \<Rightarrow> Inr v)"

text \<open>\<open>s + x\<close> for a string \<open>s\<close>: only a string can be concatenated to a string.\<close>

definition str_add :: "string \<Rightarrow> val \<Rightarrow> error + string" where
  "str_add s x = (case x of VStr t \<Rightarrow> Inr (s @ t) | _ \<Rightarrow> Inl TypeError)"

text \<open>\<open>len(x)\<close>: defined on strings and dicts, \<open>TypeError\<close> on the other values.\<close>

definition py_len :: "val \<Rightarrow> error + nat" where
  "py_len x = (case x of VStr s \<Rightarrow> Inr (length s) | VDict d \<Rightarrow> Inr (length d) | _ \<Rightarrow> Inl TypeError)"

section \<open>Nested key paths (pydash)\<close>

text \<open>
  \<open>substitute\<close> and \<open>unset\<close> of \<open>maggma/utils.py\<close> are written over functions of the
  pydash library: \<open>to_path\<close>, \<open>has\<close>, \<open>get\<close>, \<open>set_\<close> and \<open>unset\<close>. They are modelled on
  nested dicts and dotted paths of plain field names: list indices (\<open>a[0]\<close>), escaped
  dots and pydash's fall-back to the attributes of a Python object are outside the model.
  A key is either a dotted string or an already split path, as \<open>to_path\<close> accepts both.
\<close>

datatype pykey = KStr string | KPath "string list"

fun split_dots :: "string \<Rightarrow> string \<Rightarrow> string list" where
  "split_dots acc [] = [rev acc]"
| "split_dots acc (c # cs) =
     (if c = CHR ''.'' then rev acc # split_dots [] cs else split_dots (c # acc) cs)"

fun to_path :: "pykey \<Rightarrow> string list" where
  "to_path (KStr s) = split_dots [] s"
| "to_path (KPath p) = p"

fun pydash_has :: "val \<Rightarrow> string list \<Rightarrow> bool" where
  "pydash_has v [] = True"
| "pydash_has (VDict d) (k # ks) =
     (case map_of d k of None \<Rightarrow> False | Some v \<Rightarrow> pydash_has v ks)"
| "pydash_has _ (k # ks) = False"

fun pydash_get :: "val \<Rightarrow> string list \<Rightarrow> val" where
  "pydash_get v [] = v"
| "pydash_get (VDict d) (k # ks) =
     (case map_of d k of None \<Rightarrow> VNone | Some v \<Rightarrow> pydash_get v ks)"
| "pydash_get _ (k # ks) = VNone"

text \<open>
  \<open>set_\<close> creates the missing containers on the way as dicts. On the way down a
  \<open>None\<close> is left alone (nothing is set), and a scalar has no such attribute to set.
\<close>

fun pydash_set :: "val \<Rightarrow> string list \<Rightarrow> val \<Rightarrow> error + val" where
  "pydash_set v [] x = Inr v"
| "pydash_set (VDict d) [k] x = Inr (VDict (AList.update k x d))"
| "pydash_set (VDict d) (k # k' # ks) x =
     (let sub = (case map_of d k of None \<Rightarrow> VDict [] | Some v \<Rightarrow> v) in
      case pydash_set sub (k' # ks) x of
        Inl e \<Rightarrow> Inl e
      | Inr sub' \<Rightarrow> Inr (VDict (AList.update k sub' d)))"
| "pydash_set VNone (k # ks) x = Inr VNone"
| "pydash_set _ (k # ks) x = Inl AttributeError"

text \<open>pydash's \<open>unset\<close> removes the last key of the path when the path is there, silently.\<close>

fun pydash_unset :: "val \<Rightarrow> string list \<Rightarrow> val" where
  "pydash_unset v [] = v"
| "pydash_unset (VDict d) [k] = VDict (AList.delete k d)"
| "pydash_unset (VDict d) (k # k' # ks) =
     (case map_of d k of
        None \<Rightarrow> VDict d
      | Some v \<Rightarrow> VDict (AList.update k (pydash_unset v (k' # ks)) d))"
| "pydash_unset v (k # ks) = v"

section \<open>maggma/utils.py: unset and substitute\<close>

text \<open>
  Both functions mutate the dict they are given and return nothing. The model returns the
  dict after the call, together with the exception that ended the call, if any: what was
  mutated before a raise stays mutated.

  \<open>unset\<close> removes the key, then walks \<open>i\<close> down from \<open>len(path) - 1\<close> to \<open>1\<close> and calls
  itself on every prefix \<open>path[:i]\<close> whose value has length \<open>0\<close>. \<open>unset_loop\<close> is that
  \<open>for\<close> loop, with \<open>i\<close> the next index of \<open>reversed(range(1, len(path)))\<close>, which is
  below \<open>len(path)\<close>.
\<close>

function unset :: "val \<Rightarrow> string list \<Rightarrow> val \<times> error option"
  and unset_loop :: "val \<Rightarrow> string list \<Rightarrow> nat \<Rightarrow> val \<times> error option" where
  "unset d path = unset_loop (pydash_unset d path) path (length path - 1)"
| "unset_loop d path i =
     (if i = 0 \<or> length path \<le> i then (d, None)
      else case py_len (pydash_get d (take i path)) of
             Inl e \<Rightarrow> (d, Some e)
           | Inr n \<Rightarrow>
               if n = 0 then
                 (case unset d (take i path) of
                    (d', None) \<Rightarrow> unset_loop d' path (i - 1)
                  | (d', Some e) \<Rightarrow> (d', Some e))
               else unset_loop d path (i - 1))"
  by pat_completeness auto
termination
  by (relation "measures [\<lambda>x. case x of Inl (d, p) \<Rightarrow> length p | Inr (d, p, i) \<Rightarrow> length p,
                          \<lambda>x. case x of Inl (d, p) \<Rightarrow> length p + 1 | Inr (d, p, i) \<Rightarrow> i]")
     auto

fun substitute :: "val \<Rightarrow> (string \<times> string) list \<Rightarrow> val \<times> error option" where
  "substitute d [] = (d, None)"
| "substitute d ((alias, key) # aliases) =
     (if pydash_has d (to_path (KStr key)) then
        (case pydash_set d (to_path (KStr alias)) (pydash_get d (to_path (KStr key))) of
           Inl e \<Rightarrow> (d, Some e)
         | Inr d1 \<Rightarrow>
             (case unset d1 (to_path (KStr key)) of
                (d2, None) \<Rightarrow> substitute d2 aliases
              | (d2, Some e) \<Rightarrow> (d2, Some e)))
      else substitute d aliases)"

section \<open>maggma/utils.py: grouper\<close>

text \<open>
  \<open>grouper(iterable, n)\<close> is \<open>iter(lambda: list(islice(iterable, n)), [])\<close>: it takes the
  next \<open>n\<close> items as a list, again and again, until a list comes back empty. \<open>n\<close> is a
  natural number here (the one caller passes \<open>1000\<close>; \<open>islice\<close> refuses a negative one).
\<close>

function grouper :: "'a list \<Rightarrow> nat \<Rightarrow> 'a list list" where
  "grouper xs n =
     (let chunk = take n xs in
      if chunk = [] then [] else chunk # grouper (drop n xs) n)"
  by pat_completeness auto
termination
  by (relation "measure (\<lambda>(xs, n). length xs)") auto

declare grouper.simps [simp del]

section \<open>Decimal digits\<close>

text \<open>The character of a digit, the test for one, and the number that digits write.\<close>

definition digit_char :: "nat \<Rightarrow> char" where
  "digit_char n = char_of (48 + n)"

definition is_digit :: "char \<Rightarrow> bool" where
  "is_digit c = (48 \<le> (of_char c :: nat) \<and> (of_char c :: nat) \<le> 57)"

definition digits_value :: "string \<Rightarrow> nat" where
  "digits_value s = foldl (\<lambda>acc c. 10 * acc + (of_char c - 48)) 0 (filter is_digit s)"

section \<open>maggma/utils.py: timestamps\<close>

text \<open>
  A naive \<open>datetime\<close> (one without a time zone), as Python keeps it: the fields of the
  date and of the time of day. The constructor accepts the years 1 to 9999, the days
  that the month has in that year, and times of day up to 23:59:59.999999.
\<close>

record datetime =
  year :: nat
  month :: nat
  day :: nat
  hour :: nat
  minute :: nat
  second :: nat
  microsecond :: nat

definition is_leap :: "nat \<Rightarrow> bool" where
  "is_leap y = (y mod 4 = 0 \<and> (y mod 100 \<noteq> 0 \<or> y mod 400 = 0))"

definition days_in_month :: "nat \<Rightarrow> nat \<Rightarrow> nat" where
  "days_in_month y m =
     (if m = 2 then (if is_leap y then 29 else 28)
      else if m = 4 \<or> m = 6 \<or> m = 9 \<or> m = 11 then 30 else 31)"

definition valid_datetime :: "datetime \<Rightarrow> bool" where
  "valid_datetime t =
     (1 \<le> year t \<and> year t \<le> 9999 \<and> 1 \<le> month t \<and> month t \<le> 12
      \<and> 1 \<le> day t \<and> day t \<le> days_in_month (year t) (month t)
      \<and> hour t < 24 \<and> minute t < 60 \<and> second t < 60 \<and> microsecond t < 1000000)"

text \<open>\<open>datetime(y, m, d, H, M, S, us)\<close>: a \<open>ValueError\<close> when a field is out of range.\<close>

definition make_datetime :: "nat \<Rightarrow> nat \<Rightarrow> nat \<Rightarrow> nat \<Rightarrow> nat \<Rightarrow> nat \<Rightarrow> nat \<Rightarrow> error + datetime" where
  "make_datetime y m d hh mm ss us =
     (let t = \<lparr>year = y, month = m, day = d, hour = hh, minute = mm, second = ss,
                microsecond = us\<rparr>
      in if valid_datetime t then Inr t else Inl ValueError)"

text \<open>
  Python orders two naive datetimes as it orders the tuples of their fields, from the
  year down to the microsecond.
\<close>

fun lex_less :: "nat list \<Rightarrow> nat list \<Rightarrow> bool" where
  "lex_less (x # xs) (y # ys) = (x < y \<or> (x = y \<and> lex_less xs ys))"
| "lex_less _ _ = False"

definition dt_fields :: "datetime \<Rightarrow> nat list" where
  "dt_fields t = [year t, month t, day t, hour t, minute t, second t, microsecond t]"

definition dt_less :: "datetime \<Rightarrow> datetime \<Rightarrow> bool" where
  "dt_less a b = lex_less (dt_fields a) (dt_fields b)"

definition dt_ge :: "datetime \<Rightarrow> datetime \<Rightarrow> bool" where
  "dt_ge a b = (a = b \<or> dt_less b a)"

text \<open>
  \<open>dt + timedelta(milliseconds=1)\<close>. Python adds through the number of the day and the
  time of day, and the sum is the date and time one millisecond later: the carry goes
  from the microseconds up to the year, and past the last day of the year 9999 the sum
  is an \<open>OverflowError\<close>.
\<close>

definition next_day :: "datetime \<Rightarrow> error + datetime" where
  "next_day t =
     (if day t < days_in_month (year t) (month t) then Inr (t\<lparr>day := day t + 1\<rparr>)
      else if month t < 12 then Inr (t\<lparr>month := month t + 1, day := 1\<rparr>)
      else if year t < 9999 then Inr (t\<lparr>year := year t + 1, month := 1, day := 1\<rparr>)
      else Inl OverflowError)"

definition add_millisecond :: "datetime \<Rightarrow> error + datetime" where
  "add_millisecond t =
     (if microsecond t + 1000 < 1000000 then Inr (t\<lparr>microsecond := microsecond t + 1000\<rparr>)
      else
        let t1 = t\<lparr>microsecond := microsecond t + 1000 - 1000000\<rparr> in
        if second t + 1 < 60 then Inr (t1\<lparr>second := second t + 1\<rparr>)
        else if minute t + 1 < 60 then Inr (t1\<lparr>second := 0, minute := minute t + 1\<rparr>)
        else if hour t + 1 < 24 then Inr (t1\<lparr>second := 0, minute := 0, hour := hour t + 1\<rparr>)
        else next_day (t1\<lparr>second := 0, minute := 0, hour := 0\<rparr>))"

text \<open>
  \<open>isoformat(timespec="milliseconds")\<close>: \<open>YYYY-MM-DDTHH:MM:SS.mmm\<close>, every field
  padded with zeros to its width, the microseconds cut down to milliseconds.
\<close>

fun fixed_digits :: "nat \<Rightarrow> nat \<Rightarrow> string" where
  "fixed_digits 0 n = []"
| "fixed_digits (Suc w) n = fixed_digits w (n div 10) @ [digit_char (n mod 10)]"

definition isoformat_ms :: "datetime \<Rightarrow> string" where
  "isoformat_ms t =
     fixed_digits 4 (year t) @ ''-'' @ fixed_digits 2 (month t) @ ''-'' @ fixed_digits 2 (day t)
     @ ''T'' @ fixed_digits 2 (hour t) @ '':'' @ fixed_digits 2 (minute t) @ '':''
     @ fixed_digits 2 (second t) @ ''.'' @ fixed_digits 3 (microsecond t div 1000)"

definition dt_to_isoformat_ceil_ms :: "datetime \<Rightarrow> error + string" where
  "dt_to_isoformat_ceil_ms dt =
     (case add_millisecond dt of Inl e \<Rightarrow> Inl e | Inr t \<Rightarrow> Inr (isoformat_ms t))"

text \<open>
  \<open>strptime\<close> for the two formats of \<open>isostr_to_dt\<close>, on fields written at their full
  width, as \<open>isoformat\<close> writes them (\<open>strptime\<close> also reads a month, day, hour, minute
  or second of one digit; the parser here does not). The fraction \<open>%f\<close> is one to six
  digits, read as if padded with zeros on the right to six.
\<close>

definition take_num :: "nat \<Rightarrow> string \<Rightarrow> (nat \<times> string) option" where
  "take_num w s =
     (if w \<le> length s \<and> list_all is_digit (take w s)
      then Some (digits_value (take w s), drop w s) else None)"

definition expect :: "char \<Rightarrow> string \<Rightarrow> string option" where
  "expect c s = (case s of [] \<Rightarrow> None | x # r \<Rightarrow> if x = c then Some r else None)"

definition parse_seconds :: "string \<Rightarrow> ((nat \<times> nat \<times> nat \<times> nat \<times> nat \<times> nat) \<times> string) option" where
  "parse_seconds s =
     do {
       (y, r) \<leftarrow> take_num 4 s;
       r \<leftarrow> expect CHR ''-'' r;
       (m, r) \<leftarrow> take_num 2 r;
       r \<leftarrow> expect CHR ''-'' r;
       (d, r) \<leftarrow> take_num 2 r;
       r \<leftarrow> expect CHR ''T'' r;
       (hh, r) \<leftarrow> take_num 2 r;
       r \<leftarrow> expect CHR '':'' r;
       (mm, r) \<leftarrow> take_num 2 r;
       r \<leftarrow> expect CHR '':'' r;
       (ss, r) \<leftarrow> take_num 2 r;
       Some ((y, m, d, hh, mm, ss), r)
     }"

text \<open>\<open>datetime.strptime(s, "%Y-%m-%dT%H:%M:%S.%f")\<close>\<close>

definition strptime_fraction :: "string \<Rightarrow> error + datetime" where
  "strptime_fraction s =
     (case parse_seconds s of
        None \<Rightarrow> Inl ValueError
      | Some ((y, m, d, hh, mm, ss), r) \<Rightarrow>
          (case expect CHR ''.'' r of
             None \<Rightarrow> Inl ValueError
           | Some f \<Rightarrow>
               if 1 \<le> length f \<and> length f \<le> 6 \<and> list_all is_digit f
               then make_datetime y m d hh mm ss (digits_value f * 10 ^ (6 - length f))
               else Inl ValueError))"

text \<open>\<open>datetime.strptime(s, "%Y-%m-%dT%H:%M:%S")\<close>\<close>

definition strptime_seconds :: "string \<Rightarrow> error + datetime" where
  "strptime_seconds s =
     (case parse_seconds s of
        None \<Rightarrow> Inl ValueError
      | Some ((y, m, d, hh, mm, ss), r) \<Rightarrow>
          if r = [] then make_datetime y m d hh mm ss 0 else Inl ValueError)"

definition isostr_to_dt :: "string \<Rightarrow> error + datetime" where
  "isostr_to_dt s =
     (case strptime_fraction s of
        Inl ValueError \<Rightarrow> strptime_seconds s
      | Inl e \<Rightarrow> Inl e
      | Inr t \<Rightarrow> Inr t)"

text \<open>
  A datetime with its microseconds cut down to whole milliseconds, and two datetimes in
  the same millisecond.
\<close>

definition floor_ms :: "datetime \<Rightarrow> datetime" where
  "floor_ms t = t\<lparr>microsecond := microsecond t div 1000 * 1000\<rparr>"

definition same_ms :: "datetime \<Rightarrow> datetime \<Rightarrow> bool" where
  "same_ms a b = (floor_ms a = floor_ms b)"

text \<open>The last millisecond that a datetime can be in.\<close>

definition last_millisecond :: "datetime \<Rightarrow> bool" where
  "last_millisecond t =
     (year t = 9999 \<and> month t = 12 \<and> day t = 31 \<and> hour t = 23 \<and> minute t = 59
      \<and> second t = 59 \<and> 999000 \<le> microsecond t)"

section \<open>The index store\<close>

text \<open>
  The index is any store of the framework (\<open>maggma.core.Store\<close>); the hybrid store only
  calls its \<open>query\<close>, \<open>update\<close>, \<open>remove_docs\<close> and \<open>distinct\<close>. It is kept as its
  configuration, the list of its entries and the identity of the Python object.
  A criteria dict is modelled by the predicate it denotes on documents, a sort
  specification by the reordering it denotes.
\<close>

record index_store =
  iname :: string
  ikey :: string
  ilast_updated_field :: string
  idocs :: "doc list"
  ioid :: nat

text \<open>
  Modelled from the spec: \<open>Store.query\<close> of the index store, which is not part of the
  sources at hand. It returns the entries matching the criteria, sorted, after \<open>skip\<close>
  entries and at most \<open>limit\<close> of them (\<open>limit = 0\<close>: no limit).
\<close>

definition idx_query ::
  "index_store \<Rightarrow> (doc \<Rightarrow> bool) \<Rightarrow> (doc list \<Rightarrow> doc list) \<Rightarrow> nat \<Rightarrow> nat \<Rightarrow> doc list" where
  "idx_query idx criteria sort_by limit skip =
     (let ds = drop skip (sort_by (filter criteria (idocs idx)))
      in if limit = 0 then ds else take limit ds)"

text \<open>
  Modelled from the spec: \<open>Store.distinct\<close> of the index store: the distinct values of a
  field over the entries matching the criteria.
\<close>

definition idx_distinct :: "index_store \<Rightarrow> string \<Rightarrow> (doc \<Rightarrow> bool) \<Rightarrow> val list" where
  "idx_distinct idx field criteria =
     remdups (List.map_filter (\<lambda>d. map_of d field) (filter criteria (idocs idx)))"

text \<open>
  Modelled from the spec: \<open>Store.remove_docs\<close> of the index store: the entries matching
  the criteria are deleted.
\<close>

definition idx_remove_docs :: "index_store \<Rightarrow> (doc \<Rightarrow> bool) \<Rightarrow> index_store" where
  "idx_remove_docs idx criteria = idx\<lparr>idocs := filter (\<lambda>d. \<not> criteria d) (idocs idx)\<rparr>"

text \<open>
  Modelled from the spec: \<open>Store.update\<close> of the index store, an upsert on the store's key
  field: an entry with the same key value is replaced, a new one is added. A document
  without the key field is a \<open>KeyError\<close>.
\<close>

definition upsert :: "string \<Rightarrow> doc \<Rightarrow> doc list \<Rightarrow> doc list" where
  "upsert k d ds =
     (if \<exists>d' \<in> set ds. map_of d' k = map_of d k
      then map (\<lambda>d'. if map_of d' k = map_of d k then d else d') ds
      else ds @ [d])"

fun idx_update_docs :: "string \<Rightarrow> doc list \<Rightarrow> doc list \<Rightarrow> error + doc list" where
  "idx_update_docs k [] ds = Inr ds"
| "idx_update_docs k (d # new) ds =
     (case map_of d k of
        None \<Rightarrow> Inl (KeyError k)
      | Some _ \<Rightarrow> idx_update_docs k new (upsert k d ds))"

definition idx_update :: "index_store \<Rightarrow> doc list \<Rightarrow> error + index_store" where
  "idx_update idx docs =
     (case idx_update_docs (ikey idx) docs (idocs idx) of
        Inl e \<Rightarrow> Inl e
      | Inr ds \<Rightarrow> Inr (idx\<lparr>idocs := ds\<rparr>))"

section \<open>The object backend\<close>

text \<open>
  The bucket of the object storage: its objects by key, each with a body and its
  metadata. A key listed in \<open>faults\<close> is one on which the service answers every request
  with a \<open>ClientError\<close> of that error code. For a key that has no object the service
  answers a request with a \<open>ClientError\<close> too: of the error code \<open>NoSuchKey\<close> when the
  object is fetched or copied, of the error code \<open>404\<close> when only its head is asked for.
  The client checks the metadata of an object before it sends a request, item by item:
  names and values are encoded as ASCII, which a value that is not a string does not
  support (an \<open>AttributeError\<close>) and for which a string needs to be ASCII
  (a \<open>ParamValidationError\<close> otherwise).
\<close>

type_synonym bytes = string

record s3_object =
  body :: bytes
  metadata :: doc

record s3_backend =
  bucket_name :: string
  objects :: "string \<rightharpoonup> s3_object"
  faults :: "string \<rightharpoonup> val"

text \<open>The calls made on the bucket handle and on the index store, in the order made.\<close>

datatype event =
    EvGet string
  | EvPut string bytes doc
  | EvDeleteObjects "string list"
  | EvHead string
  | EvCopy string doc
  | EvIndexQuery
  | EvIndexDistinct string
  | EvIndexUpdate "doc list"
  | EvIndexRemove

fun is_backend_event :: "event \<Rightarrow> bool" where
  "is_backend_event EvIndexQuery = False"
| "is_backend_event (EvIndexDistinct _) = False"
| "is_backend_event (EvIndexUpdate _) = False"
| "is_backend_event EvIndexRemove = False"
| "is_backend_event _ = True"

fun is_put :: "event \<Rightarrow> bool" where
  "is_put (EvPut _ _ _) = True"
| "is_put _ = False"

fun index_commits :: "event list \<Rightarrow> doc list list" where
  "index_commits [] = []"
| "index_commits (EvIndexUpdate ds # es) = ds # index_commits es"
| "index_commits (_ # es) = index_commits es"

fun bulk_deletes :: "event list \<Rightarrow> string list list" where
  "bulk_deletes [] = []"
| "bulk_deletes (EvDeleteObjects ks # es) = ks # bulk_deletes es"
| "bulk_deletes (_ # es) = bulk_deletes es"

section \<open>maggma/stores/aws.py: the store and its state\<close>

text \<open>
  The attributes of an \<open>S3Store\<close> object. \<open>s3_bucket\<close> is the handle of the bucket:
  \<open>None\<close> until \<open>connect\<close>, and a call on it then is an \<open>AttributeError\<close>.
\<close>

record S3Store =
  index :: index_store
  bucket :: string
  s3_profile :: "string option"
  compress :: bool
  endpoint_url :: "string option"
  sub_dir :: string
  s3_bucket :: "string option"
  s3_workers :: int
  key :: string
  last_updated_field :: string

record world =
  store :: S3Store
  backend :: s3_backend
  trace :: "event list"

definition log_event :: "event \<Rightarrow> world \<Rightarrow> world" where
  "log_event e w = w\<lparr>trace := trace w @ [e]\<rparr>"

definition set_index :: "index_store \<Rightarrow> world \<Rightarrow> world" where
  "set_index idx w = w\<lparr>store := (store w)\<lparr>index := idx\<rparr>\<rparr>"

text \<open>\<open>[f(x) for x in xs]\<close> where \<open>f\<close> may raise: the first error ends the comprehension.\<close>

fun sum_list_map :: "('a \<Rightarrow> error + 'b) \<Rightarrow> 'a list \<Rightarrow> error + 'b list" where
  "sum_list_map f [] = Inr []"
| "sum_list_map f (x # xs) =
     (case f x of
        Inl e \<Rightarrow> Inl e
      | Inr y \<Rightarrow> (case sum_list_map f xs of Inl e \<Rightarrow> Inl e | Inr ys \<Rightarrow> Inr (y # ys)))"

text \<open>
  \<open>delete_objects\<close>: one bulk request; the keys listed are gone afterwards. The service
  reports the keys it could not delete in its answer, not as an exception.
\<close>

definition s3_delete_objects :: "string list \<Rightarrow> world \<Rightarrow> world" where
  "s3_delete_objects ks w =
     log_event (EvDeleteObjects ks)
       (w\<lparr>backend := (backend w)\<lparr>objects :=
            (\<lambda>k. if k \<in> set ks then None else objects (backend w) k)\<rparr>\<rparr>)"

subsection \<open>remove_docs\<close>

text \<open>
  The loop over the chunks: the object list of a chunk is built first
  (\<open>self.sub_dir + obj\<close> for each key value), then the bulk delete is called on the handle.
\<close>

fun delete_chunks :: "val list list \<Rightarrow> world \<Rightarrow> error option \<times> world" where
  "delete_chunks [] w = (None, w)"
| "delete_chunks (chunk_to_remove # chunks) w =
     (case sum_list_map (str_add (sub_dir (store w))) chunk_to_remove of
        Inl e \<Rightarrow> (Some e, w)
      | Inr objlist \<Rightarrow>
          (case s3_bucket (store w) of
             None \<Rightarrow> (Some AttributeError, w)
           | Some h \<Rightarrow> delete_chunks chunks (s3_delete_objects objlist w)))"

definition S3Store_remove_docs :: "world \<Rightarrow> (doc \<Rightarrow> bool) \<Rightarrow> bool \<Rightarrow> error option \<times> world" where
  "S3Store_remove_docs w criteria remove_s3_object =
     (if \<not> remove_s3_object then
        (None, log_event EvIndexRemove (set_index (idx_remove_docs (index (store w)) criteria) w))
      else
        let to_remove = idx_distinct (index (store w)) (key (store w)) criteria;
            w1 = log_event (EvIndexDistinct (key (store w))) w;
            w2 = log_event EvIndexRemove (set_index (idx_remove_docs (index (store w1)) criteria) w1);
            to_remove_chunks = grouper to_remove 1000
        in delete_chunks to_remove_chunks w2)"

subsection \<open>Python's str and int on values\<close>

fun nat_digits :: "nat \<Rightarrow> string" where
  "nat_digits n =
     (if n < 10 then [digit_char n] else nat_digits (n div 10) @ [digit_char (n mod 10)])"

declare nat_digits.simps [simp del]

definition show_int :: "int \<Rightarrow> string" where
  "show_int i = (if i < 0 then CHR ''-'' # nat_digits (nat (- i)) else nat_digits (nat i))"

text \<open>
  \<open>repr\<close> and \<open>str\<close>. The \<open>repr\<close> of a string is written between single quotes; the
  escapes Python adds for quotes, backslashes and unprintable characters are not modelled.
\<close>

definition quoted :: "string \<Rightarrow> string" where
  "quoted s = [CHR 0x27] @ s @ [CHR 0x27]"

fun join_with :: "string \<Rightarrow> string list \<Rightarrow> string" where
  "join_with sep [] = []"
| "join_with sep [x] = x"
| "join_with sep (x # y # ys) = x @ sep @ join_with sep (y # ys)"

fun py_repr :: "val \<Rightarrow> string" where
  "py_repr VNone = ''None''"
| "py_repr (VBool b) = (if b then ''True'' else ''False'')"
| "py_repr (VInt i) = show_int i"
| "py_repr (VStr s) = quoted s"
| "py_repr (VDict d) =
     ''{'' @ join_with '', '' (map (\<lambda>p. quoted (fst p) @ '': '' @ py_repr (snd p)) d) @ ''}''"

fun py_str :: "val \<Rightarrow> string" where
  "py_str (VStr s) = s"
| "py_str v = py_repr v"

text \<open>
  \<open>int(x)\<close>: an integer is itself, a boolean is \<open>0\<close> or \<open>1\<close>, a string is read as an
  optionally signed decimal numeral, with white space around it and single underscores
  between its digits allowed; any other string is a \<open>ValueError\<close>, any other value a
  \<open>TypeError\<close>.
\<close>

definition is_space :: "char \<Rightarrow> bool" where
  "is_space c = ((of_char c :: nat) \<in> {9, 10, 11, 12, 13, 32})"

definition strip_spaces :: "string \<Rightarrow> string" where
  "strip_spaces s = rev (dropWhile is_space (rev (dropWhile is_space s)))"

fun valid_digits :: "string \<Rightarrow> bool" where
  "valid_digits [] = False"
| "valid_digits [c] = is_digit c"
| "valid_digits (c # d # cs) =
     (is_digit c \<and>
      (if d = CHR ''_'' then cs \<noteq> [] \<and> valid_digits cs else valid_digits (d # cs)))"

definition int_of_string :: "string \<Rightarrow> error + int" where
  "int_of_string s =
     (let t = strip_spaces s;
          neg = (t \<noteq> [] \<and> hd t = CHR ''-'');
          body = (if t \<noteq> [] \<and> (hd t = CHR ''-'' \<or> hd t = CHR ''+'') then tl t else t)
      in if valid_digits body
         then Inr (if neg then - int (digits_value body) else int (digits_value body))
         else Inl ValueError)"

fun py_int :: "val \<Rightarrow> error + int" where
  "py_int (VInt i) = Inr i"
| "py_int (VBool b) = Inr (if b then 1 else 0)"
| "py_int (VStr s) = int_of_string s"
| "py_int _ = Inl TypeError"

subsection \<open>Libraries\<close>

text \<open>
  The store serialises with msgpack (with monty's hooks for rich types), compresses with
  zlib, and re-encodes the last-updated value with \<open>to_isoformat_ceil_ms\<close>, which it
  imports from \<open>maggma.utils\<close> but which is not among the functions of that module at
  hand. All of them are parameters of the model.
\<close>

record libs =
  packb :: "doc \<Rightarrow> error + bytes"
  unpackb :: "bytes \<Rightarrow> error + val"
  zlib_compress :: "bytes \<Rightarrow> bytes"
  zlib_decompress :: "bytes \<Rightarrow> error + bytes"
  to_isoformat_ceil_ms :: "val \<Rightarrow> error + val"

subsection \<open>Requests to the bucket\<close>

definition is_str :: "val \<Rightarrow> bool" where
  "is_str v = (case v of VStr _ \<Rightarrow> True | _ \<Rightarrow> False)"

definition ascii :: "string \<Rightarrow> bool" where
  "ascii s = list_all (\<lambda>c. (of_char c :: nat) < 128) s"

text \<open>The client's check of the metadata: the first item that fails decides the error.\<close>

fun metadata_error :: "doc \<Rightarrow> error option" where
  "metadata_error [] = None"
| "metadata_error ((k, v) # items) =
     (if \<not> ascii k then Some ParamValidationError
      else case v of
             VStr s \<Rightarrow> if ascii s then metadata_error items else Some ParamValidationError
           | _ \<Rightarrow> Some AttributeError)"

text \<open>\<open>Object(k).get()["Body"].read()\<close>\<close>

definition s3_get :: "string \<Rightarrow> world \<Rightarrow> (error + bytes) \<times> world" where
  "s3_get k w =
     (let w' = log_event (EvGet k) w in
      case faults (backend w) k of
        Some c \<Rightarrow> (Inl (ClientError c), w')
      | None \<Rightarrow>
          (case objects (backend w) k of
             None \<Rightarrow> (Inl (ClientError (VStr ''NoSuchKey'')), w')
           | Some ob \<Rightarrow> (Inr (body ob), w')))"

text \<open>\<open>Object(k).metadata\<close>: the attribute is loaded from the service when it is read.\<close>

definition s3_metadata :: "string \<Rightarrow> world \<Rightarrow> (error + doc) \<times> world" where
  "s3_metadata k w =
     (let w' = log_event (EvHead k) w in
      case faults (backend w) k of
        Some c \<Rightarrow> (Inl (ClientError c), w')
      | None \<Rightarrow>
          (case objects (backend w) k of
             None \<Rightarrow> (Inl (ClientError (VStr ''404'')), w')
           | Some ob \<Rightarrow> (Inr (metadata ob), w')))"

text \<open>\<open>put_object(Key=k, Body=data, Metadata=meta)\<close>\<close>

definition s3_put_object :: "string \<Rightarrow> bytes \<Rightarrow> doc \<Rightarrow> world \<Rightarrow> error option \<times> world" where
  "s3_put_object k data meta w =
     (let w' = log_event (EvPut k data meta) w in
      case metadata_error meta of
        Some e \<Rightarrow> (Some e, w')
      | None \<Rightarrow>
      (case faults (backend w) k of
        Some c \<Rightarrow> (Some (ClientError c), w')
      | None \<Rightarrow>
          (None, w'\<lparr>backend := (backend w)\<lparr>objects :=
                       (objects (backend w))(k \<mapsto> \<lparr>body = data, metadata = meta\<rparr>)\<rparr>\<rparr>)))"

text \<open>
  \<open>Object(k).copy_from(CopySource=itself, Metadata=meta, MetadataDirective="REPLACE")\<close>:
  the object is copied onto itself with new metadata; the body is the one it had.
\<close>

definition s3_copy_replace :: "string \<Rightarrow> doc \<Rightarrow> world \<Rightarrow> error option \<times> world" where
  "s3_copy_replace k meta w =
     (let w' = log_event (EvCopy k meta) w in
      case metadata_error meta of
        Some e \<Rightarrow> (Some e, w')
      | None \<Rightarrow>
      (case faults (backend w) k of
        Some c \<Rightarrow> (Some (ClientError c), w')
      | None \<Rightarrow>
          (case objects (backend w) k of
             None \<Rightarrow> (Some (ClientError (VStr ''NoSuchKey'')), w')
           | Some ob \<Rightarrow>
               (None, w'\<lparr>backend := (backend w)\<lparr>objects :=
                            (objects (backend w))(k \<mapsto> ob\<lparr>metadata := meta\<rparr>)\<rparr>\<rparr>))))"

subsection \<open>query\<close>

text \<open>
  \<open>properties\<close> is a dict, a list or \<open>None\<close>. One pass of the loop body either yields a
  document, leaves the loop (\<open>break\<close>) or raises.
\<close>

datatype props = PNone | PDict doc | PList "string list"

fun props_names :: "props \<Rightarrow> string list" where
  "props_names PNone = []"
| "props_names (PDict d) = map fst d"
| "props_names (PList ps) = ps"

text \<open>\<open>{p: doc[p] for p in properties if p in doc}\<close>\<close>

definition project :: "string list \<Rightarrow> doc \<Rightarrow> doc" where
  "project ps d =
     foldl (\<lambda>acc p. case map_of d p of None \<Rightarrow> acc | Some v \<Rightarrow> AList.update p v acc) [] ps"

datatype step = Yield val | Break | Raise error

text \<open>
  What the loop body does with the answer to the fetch: the \<open>except\<close> clause for a
  \<open>ClientError\<close>, then decompression and deserialisation of the body.
\<close>

definition fetched :: "libs \<Rightarrow> doc \<Rightarrow> error + bytes \<Rightarrow> step" where
  "fetched L d r =
     (case r of
        Inl (ClientError c) \<Rightarrow>
          (case py_int c of
             Inl e \<Rightarrow> Raise e
           | Inr error_code \<Rightarrow> if error_code = 404 then Break else Raise (ClientError c))
      | Inl e \<Rightarrow> Raise e
      | Inr data \<Rightarrow>
          (case (if map_of d ''compression'' = Some (VStr ''zlib'')
                 then zlib_decompress L data else Inr data) of
             Inl e \<Rightarrow> Raise e
           | Inr data' \<Rightarrow>
               (case unpackb L data' of
                  Inl e \<Rightarrow> Raise e
                | Inr v \<Rightarrow> Yield v)))"

definition query_entry :: "libs \<Rightarrow> props \<Rightarrow> doc \<Rightarrow> world \<Rightarrow> step \<times> world" where
  "query_entry L properties d w =
     (if properties \<noteq> PNone \<and> set (props_names properties) \<subseteq> fst ` set d then
        (Yield (VDict (project (props_names properties) d)), w)
      else
        case s3_bucket (store w) of
          None \<Rightarrow> (Raise AttributeError, w)
        | Some h \<Rightarrow>
        (case getitem d (key (store w)) of
           Inl e \<Rightarrow> (Raise e, w)
         | Inr kv \<Rightarrow>
        (case str_add (sub_dir (store w)) kv of
           Inl e \<Rightarrow> (Raise e, w)
         | Inr k \<Rightarrow>
        (case s3_get k w of (r, w') \<Rightarrow> (fetched L d r, w')))))"

text \<open>
  The generator, run to its end: the documents it yields, in order, and the exception
  that ended it, if any.
\<close>

fun query_loop :: "libs \<Rightarrow> props \<Rightarrow> doc list \<Rightarrow> world \<Rightarrow> (val list \<times> error option) \<times> world" where
  "query_loop L properties [] w = (([], None), w)"
| "query_loop L properties (d # ds) w =
     (case query_entry L properties d w of
        (Yield v, w') \<Rightarrow>
          (case query_loop L properties ds w' of ((vs, r), w'') \<Rightarrow> ((v # vs, r), w''))
      | (Break, w') \<Rightarrow> (([], None), w')
      | (Raise e, w') \<Rightarrow> (([], Some e), w'))"

definition S3Store_query ::
  "libs \<Rightarrow> world \<Rightarrow> (doc \<Rightarrow> bool) \<Rightarrow> props \<Rightarrow> (doc list \<Rightarrow> doc list) \<Rightarrow> nat \<Rightarrow> nat
     \<Rightarrow> (val list \<times> error option) \<times> world" where
  "S3Store_query L w criteria properties sort_by skip limit =
     query_loop L properties (idx_query (index (store w)) criteria sort_by limit skip)
       (log_event EvIndexQuery w)"

subsection \<open>update and write_doc_to_s3\<close>

text \<open>\<open>{k: doc[k] for k in search_keys}\<close>: the first missing field is a \<open>KeyError\<close>.\<close>

fun pick_fields :: "doc \<Rightarrow> string list \<Rightarrow> doc \<Rightarrow> error + doc" where
  "pick_fields d [] acc = Inr acc"
| "pick_fields d (k # ks) acc =
     (case getitem d k of
        Inl e \<Rightarrow> Inl e
      | Inr v \<Rightarrow> pick_fields d ks (AList.update k v acc))"

text \<open>
  \<open>write_doc_to_s3\<close> up to the call of \<open>put_object\<close>: the key, the body and the metadata
  of the object to write. The metadata is the index entry that the function returns.
\<close>

definition prepare_write :: "libs \<Rightarrow> S3Store \<Rightarrow> doc \<Rightarrow> string list \<Rightarrow> error + (string \<times> bytes \<times> doc)" where
  "prepare_write L st d search_keys =
     (case pick_fields d search_keys [] of
        Inl e \<Rightarrow> Inl e
      | Inr sd0 \<Rightarrow>
      (case getitem d (key st) of
         Inl e \<Rightarrow> Inl e
       | Inr kv \<Rightarrow>
      (let sd1 = AList.update (key st) kv sd0;
           sd2 = (if sub_dir st \<noteq> [] then AList.update ''sub_dir'' (VStr (sub_dir st)) sd1 else sd1);
           sd3 = (if ''_id'' \<in> fst ` set sd2 then AList.delete ''_id'' sd2 else sd2)
       in case packb L d of
            Inl e \<Rightarrow> Inl e
          | Inr data0 \<Rightarrow>
       (let sd4 = (if compress st then AList.update ''compression'' (VStr ''zlib'') sd3 else sd3);
            data = (if compress st then zlib_compress L data0 else data0)
        in case map_of sd4 (last_updated_field st) of
             None \<Rightarrow> Inr (sub_dir st @ py_str kv, data, sd4)
           | Some lu \<Rightarrow>
               (case to_isoformat_ceil_ms L lu of
                  Inl e \<Rightarrow> Inl e
                | Inr stamp \<Rightarrow>
                    Inr (sub_dir st @ py_str kv, data,
                         AList.update (last_updated_field st) (VStr (py_str stamp)) sd4))))))"

definition write_doc_to_s3 :: "libs \<Rightarrow> doc \<Rightarrow> string list \<Rightarrow> world \<Rightarrow> (error + doc) \<times> world" where
  "write_doc_to_s3 L d search_keys w =
     (case prepare_write L (store w) d search_keys of
        Inl e \<Rightarrow> (Inl e, w)
      | Inr (k, data, search_doc) \<Rightarrow>
          (case s3_bucket (store w) of
             None \<Rightarrow> (Inl AttributeError, w)
           | Some h \<Rightarrow>
               (case s3_put_object k data search_doc w of
                  (Some e, w') \<Rightarrow> (Inl e, w')
                | (None, w') \<Rightarrow> (Inr search_doc, w'))))"

text \<open>
  \<open>update\<close> submits one task per document to a pool of \<open>s3_workers\<close> threads, waits until
  all of them are done, then reads the result of each future and passes the results to
  the \<open>update\<close> of the index. The pool is free to run the tasks in any order, and the
  futures are kept in a set, which is read in any order: a schedule fixes both orders.
  Reading the result of a future whose task raised raises that exception again.
  The task function is passed to \<open>submit\<close> by the keyword \<open>fn\<close>: \<open>S3Store_update\<close> is the
  update under an executor that accepts it, as that of Python 3.8 does.
\<close>

datatype key_arg = KeyNone | KeyOne string | KeyMany "string list"

record schedule =
  run_order :: "doc list \<Rightarrow> doc list"
  done_order :: "(error + doc) list \<Rightarrow> (error + doc) list"

definition fair :: "schedule \<Rightarrow> bool" where
  "fair s = ((\<forall>ds. mset (run_order s ds) = mset ds) \<and> (\<forall>fs. mset (done_order s fs) = mset fs))"

definition in_order :: schedule where
  "in_order = \<lparr>run_order = (\<lambda>ds. ds), done_order = (\<lambda>fs. fs)\<rparr>"

fun run_writes :: "libs \<Rightarrow> string list \<Rightarrow> doc list \<Rightarrow> world \<Rightarrow> (error + doc) list \<times> world" where
  "run_writes L search_keys [] w = ([], w)"
| "run_writes L search_keys (d # ds) w =
     (case write_doc_to_s3 L d search_keys w of
        (r, w') \<Rightarrow> (case run_writes L search_keys ds w' of (rs, w'') \<Rightarrow> (r # rs, w'')))"

fun results :: "(error + doc) list \<Rightarrow> error + doc list" where
  "results [] = Inr []"
| "results (Inl e # fs) = Inl e"
| "results (Inr sd # fs) = (case results fs of Inl e \<Rightarrow> Inl e | Inr sds \<Rightarrow> Inr (sd # sds))"

definition search_keys_of :: "S3Store \<Rightarrow> key_arg \<Rightarrow> string list" where
  "search_keys_of st k =
     (case k of
        KeyMany ks \<Rightarrow> ks
      | KeyOne k1 \<Rightarrow> if k1 \<noteq> [] then [k1] else [key st]
      | KeyNone \<Rightarrow> [key st])"

definition S3Store_update ::
  "libs \<Rightarrow> schedule \<Rightarrow> world \<Rightarrow> doc list \<Rightarrow> key_arg \<Rightarrow> error option \<times> world" where
  "S3Store_update L s w docs k =
     (let search_keys = search_keys_of (store w) k in
      if s3_workers (store w) \<le> 0 then (Some ValueError, w)
      else
        case run_writes L search_keys (run_order s docs) w of
          (fs, w1) \<Rightarrow>
            (case results (done_order s fs) of
               Inl e \<Rightarrow> (Some e, w1)
             | Inr search_docs \<Rightarrow>
                 (case idx_update (index (store w1)) search_docs of
                    Inl e \<Rightarrow> (Some e, log_event (EvIndexUpdate search_docs) w1)
                  | Inr idx \<Rightarrow> (None, log_event (EvIndexUpdate search_docs) (set_index idx w1)))))"

text \<open>
  From Python 3.9 on the parameter \<open>fn\<close> of \<open>submit\<close> is positional only, and
  \<open>pool.submit(fn=...)\<close> raises \<open>TypeError\<close>: where there is a document to write, the first
  \<open>submit\<close> of the update raises, after the pool was made and before anything is written.
\<close>

datatype executor = Fn_by_keyword | Fn_positional_only

definition S3Store_update_under ::
  "executor \<Rightarrow> libs \<Rightarrow> schedule \<Rightarrow> world \<Rightarrow> doc list \<Rightarrow> key_arg \<Rightarrow> error option \<times> world" where
  "S3Store_update_under ex L s w docs k =
     (if ex = Fn_positional_only \<and> 0 < s3_workers (store w) \<and> docs \<noteq> []
      then (Some TypeError, w)
      else S3Store_update L s w docs k)"

subsection \<open>rebuild_metadata_from_index\<close>

definition lower_char :: "char \<Rightarrow> char" where
  "lower_char c =
     (if 65 \<le> (of_char c :: nat) \<and> (of_char c :: nat) \<le> 90 then char_of ((of_char c :: nat) + 32) else c)"

definition lower :: "string \<Rightarrow> string" where
  "lower s = map lower_char s"

text \<open>
  \<open>new_meta\<close>: the object's metadata with its keys in lower case, then every field of
  the index entry under its name in lower case.
\<close>

definition lower_keys :: "doc \<Rightarrow> doc \<Rightarrow> doc" where
  "lower_keys d acc = foldl (\<lambda>m kv. AList.update (lower (fst kv)) (snd kv) m) acc d"

definition merged_meta :: "doc \<Rightarrow> doc \<Rightarrow> doc" where
  "merged_meta object_meta index_doc = lower_keys index_doc (lower_keys object_meta [])"

text \<open>\<open>new_meta.pop("_id")\<close>: \<open>pop\<close> without a default raises when the key is missing.\<close>

definition dict_pop :: "string \<Rightarrow> doc \<Rightarrow> error + doc" where
  "dict_pop k d = (if k \<in> fst ` set d then Inr (AList.delete k d) else Inl (KeyError k))"

definition rebuild_entry :: "doc \<Rightarrow> world \<Rightarrow> error option \<times> world" where
  "rebuild_entry index_doc w =
     (case getitem index_doc (key (store w)) of
        Inl e \<Rightarrow> (Some e, w)
      | Inr kv \<Rightarrow>
     (case str_add (sub_dir (store w)) kv of
        Inl e \<Rightarrow> (Some e, w)
      | Inr key_ \<Rightarrow>
     (case s3_bucket (store w) of
        None \<Rightarrow> (Some AttributeError, w)
      | Some h \<Rightarrow>
     (case s3_metadata key_ w of
        (Inl e, w') \<Rightarrow> (Some e, w')
      | (Inr object_meta, w') \<Rightarrow>
     (case dict_pop ''_id'' (merged_meta object_meta index_doc) of
        Inl e \<Rightarrow> (Some e, w')
      | Inr new_meta \<Rightarrow> s3_copy_replace key_ new_meta w')))))"

fun rebuild_loop :: "doc list \<Rightarrow> world \<Rightarrow> error option \<times> world" where
  "rebuild_loop [] w = (None, w)"
| "rebuild_loop (d # ds) w =
     (case rebuild_entry d w of
        (Some e, w') \<Rightarrow> (Some e, w')
      | (None, w') \<Rightarrow> rebuild_loop ds w')"

definition S3Store_rebuild_metadata_from_index ::
  "world \<Rightarrow> (doc \<Rightarrow> bool) option \<Rightarrow> error option \<times> world" where
  "S3Store_rebuild_metadata_from_index w index_query_param =
     (let qq = (case index_query_param of None \<Rightarrow> (\<lambda>d. True) | Some c \<Rightarrow> c)
      in rebuild_loop (idx_query (index (store w)) qq (\<lambda>ds. ds) 0 0) (log_event EvIndexQuery w))"

subsection \<open>Equality and hashing\<close>

text \<open>
  Modelled from the spec: \<open>Store.__eq__\<close> of the index store, which is not part of the
  sources at hand. Two stores are equal when their configurations are: equality compares
  neither the identity of the objects nor their connections nor what they hold.
\<close>

definition Store_eq :: "index_store \<Rightarrow> index_store \<Rightarrow> bool" where
  "Store_eq a b = (iname a = iname b \<and> ikey a = ikey b \<and> ilast_updated_field a = ilast_updated_field b)"

datatype pyobj = AnS3Store S3Store | AnotherObject

definition S3Store_eq :: "S3Store \<Rightarrow> pyobj \<Rightarrow> bool" where
  "S3Store_eq self other =
     (case other of
        AnotherObject \<Rightarrow> False
      | AnS3Store other \<Rightarrow>
          Store_eq (index self) (index other) \<and> bucket self = bucket other
          \<and> last_updated_field self = last_updated_field other)"

text \<open>
  \<open>__hash__\<close> hashes the pair of \<open>self.index.__hash__\<close> and the bucket name. The first
  component is not a hash value: the method is not called, so it is the bound method
  object itself. Python (from 3.8, the oldest version the package supports) hashes a
  bound method by the identity of the object it is bound to and by its function.
  \<open>hashed\<close> are the values handed to \<open>hash\<close>, and the builtin \<open>hash\<close> is a parameter.
\<close>

datatype hashed = HMethod nat string | HStr string | HTuple "hashed list"

definition S3Store_hash_arg :: "S3Store \<Rightarrow> hashed" where
  "S3Store_hash_arg self = HTuple [HMethod (ioid (index self)) ''__hash__'', HStr (bucket self)]"

definition S3Store_hash :: "(hashed \<Rightarrow> int) \<Rightarrow> S3Store \<Rightarrow> int" where
  "S3Store_hash py_hash self = py_hash (S3Store_hash_arg self)"

subsection \<open>The constructor\<close>

definition strip_slashes :: "string \<Rightarrow> string" where
  "strip_slashes s = rev (dropWhile (\<lambda>c. c = CHR ''/'') (rev (dropWhile (\<lambda>c. c = CHR ''/'') s)))"

text \<open>
  Modelled from the spec: \<open>Store.__init__\<close> of the base class, which is not part of the
  sources at hand. It takes the key field (\<open>task_id\<close> unless given), the last-updated
  field (\<open>last_updated\<close> unless given), the type of the last-updated values and a
  validator, all by keyword, and keeps them; any other keyword is a \<open>TypeError\<close>.
\<close>

definition Store_init :: "(string \<times> string) list \<Rightarrow> error + (string \<times> string)" where
  "Store_init kwargs =
     (if \<not> fst ` set kwargs \<subseteq> {''key'', ''last_updated_field'', ''last_updated_type'', ''validator''}
      then Inl TypeError
      else Inr (case map_of kwargs ''key'' of None \<Rightarrow> ''task_id'' | Some k \<Rightarrow> k,
                case map_of kwargs ''last_updated_field'' of None \<Rightarrow> ''last_updated'' | Some f \<Rightarrow> f))"

definition S3Store_init ::
  "bool \<Rightarrow> index_store \<Rightarrow> string \<Rightarrow> string option \<Rightarrow> bool \<Rightarrow> string option \<Rightarrow> string option
     \<Rightarrow> int \<Rightarrow> (string \<times> string) list \<Rightarrow> error + S3Store" where
  "S3Store_init boto3_present idx bucket_arg s3_profile_arg compress_arg endpoint_url_arg
       sub_dir_arg s3_workers_arg kwargs =
     (if \<not> boto3_present then Inl RuntimeError
      else
        let sd = (case sub_dir_arg of
                    None \<Rightarrow> []
                  | Some s \<Rightarrow> if s \<noteq> [] then strip_slashes s @ ''/'' else []);
            kwargs' = AList.update ''key'' (py_str (VStr (ikey idx))) kwargs
        in case Store_init kwargs' of
             Inl e \<Rightarrow> Inl e
           | Inr (k, lu) \<Rightarrow>
               Inr \<lparr>index = idx, bucket = bucket_arg, s3_profile = s3_profile_arg,
                    compress = compress_arg, endpoint_url = endpoint_url_arg, sub_dir = sd,
                    s3_bucket = None, s3_workers = s3_workers_arg, key = k,
                    last_updated_field = lu\<rparr>)"

text \<open>
  The fields that \<open>write_doc_to_s3\<close> copies from a document into its index entry share
  the entry with the store's own bookkeeping (\<open>sub_dir\<close>, \<open>compression\<close>, the removed
  \<open>_id\<close>, the re-encoded last-updated value). The two clash for a document when its
  entry does not have the document's key value under the key field, or has the marker
  \<open>compression = "zlib"\<close> on a store that does not compress (or lacks it on one that
  does).
\<close>

definition clashes :: "libs \<Rightarrow> S3Store \<Rightarrow> doc \<Rightarrow> string list \<Rightarrow> bool" where
  "clashes L st D search_keys =
     (case prepare_write L st D search_keys of
        Inl e \<Rightarrow> False
      | Inr (k, data, search_doc) \<Rightarrow>
          map_of search_doc (key st) \<noteq> map_of D (key st)
          \<or> (map_of search_doc ''compression'' = Some (VStr ''zlib'')) \<noteq> compress st)"

text \<open>The criteria \<open>{k: v}\<close>: the documents whose field \<open>k\<close> is \<open>v\<close>.\<close>

definition key_is :: "string \<Rightarrow> val option \<Rightarrow> doc \<Rightarrow> bool" where
  "key_is k v e = (map_of e k = v)"

text \<open>No two entries of the index have the same value of the key field.\<close>

definition unique_keys :: "world \<Rightarrow> bool" where
  "unique_keys w = distinct (map (\<lambda>e. map_of e (key (store w))) (idocs (index (store w))))"

text \<open>Every value of the key field in the index is a string.\<close>

definition string_keys :: "world \<Rightarrow> bool" where
  "string_keys w =
     (\<forall>e \<in> set (idocs (index (store w))). \<forall>v. map_of e (key (store w)) = Some v \<longrightarrow> is_str v)"

text \<open>The store and its index name the same key field.\<close>

definition keys_agree :: "world \<Rightarrow> bool" where
  "keys_agree w = (key (store w) = ikey (index (store w)))"

section \<open>Example stores\<close>

text \<open>
  A connected store over an index keyed on \<open>task_id\<close>, with the key prefix \<open>data/\<close>, on
  a bucket without faults.
\<close>

definition keyed_entries :: "string list \<Rightarrow> doc list" where
  "keyed_entries ks = map (\<lambda>k. [(''task_id'', VStr k)]) ks"

definition example_store :: "doc list \<Rightarrow> S3Store" where
  "example_store ds =
     \<lparr>index = \<lparr>iname = ''index'', ikey = ''task_id'', ilast_updated_field = ''last_updated'',
               idocs = ds, ioid = 1\<rparr>,
      bucket = ''bucket'', s3_profile = None, compress = False, endpoint_url = None,
      sub_dir = ''data/'', s3_bucket = Some ''bucket'', s3_workers = 4,
      key = ''task_id'', last_updated_field = ''last_updated''\<rparr>"

definition example_world :: "doc list \<Rightarrow> (string \<rightharpoonup> s3_object) \<Rightarrow> world" where
  "example_world ds obs =
     \<lparr>store = example_store ds,
      backend = \<lparr>bucket_name = ''bucket'', objects = obs, faults = Map.empty\<rparr>,
      trace = []\<rparr>"

text \<open>\<open>n\<close> distinct keys: \<open>k\<close>, \<open>kk\<close>, \<open>kkk\<close>, ...\<close>

definition many_keys :: "nat \<Rightarrow> string list" where
  "many_keys n = map (\<lambda>i. replicate (Suc i) CHR ''k'') [0..<n]"

text \<open>
  Three documents, and stand-ins for the libraries that are good enough to run the
  store on them: a document is serialised as its \<open>repr\<close>, and compression prepends a
  letter.
\<close>

definition doc_a :: doc where "doc_a = [(''task_id'', VStr ''a''), (''data'', VStr ''x'')]"
definition doc_b :: doc where "doc_b = [(''task_id'', VStr ''b''), (''data'', VStr ''y'')]"
definition doc_c :: doc where "doc_c = [(''task_id'', VStr ''c''), (''data'', VStr ''z'')]"

text \<open>Another document with the key of the first.\<close>

definition doc_a2 :: doc where "doc_a2 = [(''task_id'', VStr ''a''), (''data'', VStr ''w'')]"

text \<open>
  A document with a field \<open>sub_dir\<close>, and a store whose key field, and that of its index,
  is the given one.
\<close>

definition doc_s :: doc where "doc_s = [(''sub_dir'', VStr ''x''), (''data'', VStr ''v'')]"

definition keyed_on :: "string \<Rightarrow> world \<Rightarrow> world" where
  "keyed_on k w = w\<lparr>store := (store w)\<lparr>key := k, index := (index (store w))\<lparr>ikey := k\<rparr>\<rparr>\<rparr>"

text \<open>A document that has a field of the name of the store's compression marker.\<close>

definition doc_z :: doc where "doc_z = [(''task_id'', VStr ''a''), (''compression'', VStr ''zlib'')]"

definition example_libs :: libs where
  "example_libs =
     \<lparr>packb = (\<lambda>d. Inr (py_repr (VDict d))),
      unpackb = (\<lambda>b. case find (\<lambda>d. py_repr (VDict d) = b) [doc_a, doc_b, doc_c, doc_z, doc_a2] of
                        None \<Rightarrow> Inl (LibError ''unpackb'')
                      | Some d \<Rightarrow> Inr (VDict d)),
      zlib_compress = (\<lambda>b. CHR ''z'' # b),
      zlib_decompress = (\<lambda>b. case b of [] \<Rightarrow> Inl (LibError ''zlib'')
                                | c # r \<Rightarrow> if c = CHR ''z'' then Inr r else Inl (LibError ''zlib'')),
      to_isoformat_ceil_ms = (\<lambda>v. Inr v)\<rparr>"

text \<open>The object that the example store writes for a document: its body and its key field.\<close>

definition blob_of :: "doc \<Rightarrow> s3_object" where
  "blob_of d = \<lparr>body = py_repr (VDict d), metadata = filter (\<lambda>kv. fst kv = ''task_id'') d\<rparr>"

text \<open>A document without the key field.\<close>

definition doc_nokey :: doc where "doc_nokey = [(''data'', VStr ''q'')]"

text \<open>An index of three entries; the blob of the second one is not in the bucket.\<close>

definition three_entries_world :: world where
  "three_entries_world =
     example_world (keyed_entries [''a'', ''b'', ''c''])
       [''data/a'' \<mapsto> blob_of doc_a, ''data/c'' \<mapsto> blob_of doc_c]"

text \<open>A store with one entry and its blob, whose index entry has no \<open>_id\<close> field.\<close>

definition one_entry_world :: world where
  "one_entry_world = example_world (keyed_entries [''a'']) [''data/a'' \<mapsto> blob_of doc_a]"

text \<open>
  A second store object with the configuration of \<open>example_store []\<close>, over a second
  index object with the configuration of the first.
\<close>

definition same_store_elsewhere :: S3Store where
  "same_store_elsewhere = (example_store [])\<lparr>index := (index (example_store []))\<lparr>ioid := 2\<rparr>\<rparr>"

text \<open>
  The store on an empty index and an empty bucket; the criteria that every document
  matches; no sorting.
\<close>

definition empty_world :: world where
  "empty_world = example_world [] Map.empty"

definition every_doc :: "doc \<Rightarrow> bool" where
  "every_doc d = True"

definition as_stored :: "doc list \<Rightarrow> doc list" where
  "as_stored ds = ds"

text \<open>
  \<open>sd\<close> is in the index, and it is the one entry with its value of the key field \<open>k\<close>.
\<close>

definition sole_entry :: "string \<Rightarrow> doc \<Rightarrow> doc list \<Rightarrow> bool" where
  "sole_entry k sd ds = (sd \<in> set ds \<and> (\<forall>e \<in> set ds. map_of e k = map_of sd k \<longrightarrow> e = sd))"

text \<open>
  The last datetime there is; the first instant of 2024; and a datetime half a
  millisecond before it.
\<close>

definition datetime_max :: datetime where
  "datetime_max = \<lparr>year = 9999, month = 12, day = 31, hour = 23, minute = 59, second = 59,
                    microsecond = 999999\<rparr>"

definition new_year :: datetime where
  "new_year = \<lparr>year = 2024, month = 1, day = 1, hour = 0, minute = 0, second = 0,
                 microsecond = 0\<rparr>"

definition new_year_eve :: datetime where
  "new_year_eve = \<lparr>year = 2023, month = 12, day = 31, hour = 23, minute = 59, second = 59,
                    microsecond = 999500\<rparr>"

section \<open>Properties of the utilities\<close>

subsection \<open>Field aliasing\<close>

text \<open>
  C9. \<open>substitute({"a": {"b": 1}}, {"x": "a.b"})\<close> leaves the dict as \<open>{"x": 1}\<close> and
  raises nothing: the value at the path \<open>a.b\<close> is copied to \<open>x\<close>, the entry \<open>b\<close> is removed,
  and the container \<open>a\<close>, empty by then, is removed as well.
\<close>

theorem substitute_alias_example:
  "substitute (VDict [(''a'', VDict [(''b'', VInt 1)])]) [(''x'', ''a.b'')]
     = (VDict [(''x'', VInt 1)], None)"
  by (simp add: py_len_def)

subsection \<open>Batching\<close>

lemma grouper_Nil [simp]: "grouper [] n = []"
  by (simp add: grouper.simps)

lemma grouper_zero [simp]: "grouper xs 0 = []"
  by (simp add: grouper.simps)

lemma grouper_step:
  "0 < n \<Longrightarrow> xs \<noteq> [] \<Longrightarrow> grouper xs n = take n xs # grouper (drop n xs) n"
  by (subst grouper.simps) (simp add: Let_def)


lemma grouper_induct2 [case_names stop step]:
  assumes stop: "\<And>xs n. n = 0 \<or> xs = [] \<Longrightarrow> P xs n"
    and step: "\<And>xs n. 0 < n \<Longrightarrow> xs \<noteq> [] \<Longrightarrow> P (drop n xs) n \<Longrightarrow> P xs n"
  shows "P xs n"
proof (induction xs n rule: grouper.induct)
  case (1 xs n)
  show ?case
  proof (cases "n = 0 \<or> xs = []")
    case True
    then show ?thesis by (rule stop)
  next
    case False
    then have n: "0 < n" and xs: "xs \<noteq> []" by simp_all
    then have ne: "take n xs \<noteq> []" by simp
    show ?thesis using n xs 1 [OF refl ne] by (rule step)
  qed
qed

lemma grouper_concat: "0 < n \<Longrightarrow> concat (grouper xs n) = xs"
  by (induction xs n rule: grouper_induct2) (auto simp: grouper_step)

lemma grouper_chunks: "c \<in> set (grouper xs n) \<Longrightarrow> c \<noteq> [] \<and> length c \<le> n"
  by (induction xs n rule: grouper_induct2) (auto simp: grouper_step)

lemma grouper_map: "grouper (map f xs) n = map (map f) (grouper xs n)"
  by (induction xs n rule: grouper_induct2) (auto simp: grouper_step take_map drop_map)

lemma grouper_lengths:
  "0 < n \<Longrightarrow> map length (grouper xs n) =
     replicate (length xs div n) n @ (if length xs mod n = 0 then [] else [length xs mod n])"
proof (induction xs n rule: grouper_induct2)
  case (stop xs n)
  then show ?case by auto
next
  case (step xs n)
  show ?case
  proof (cases "length xs < n")
    case True
    with step show ?thesis by (simp add: grouper_step)
  next
    case False
    then have d: "length xs div n = Suc ((length xs - n) div n)"
      and m: "length xs mod n = (length xs - n) mod n"
      using step(1) by (simp_all add: le_div_geq le_mod_geq)
    from False step show ?thesis
      by (simp add: grouper_step d m min_def)
  qed
qed

lemma sum_list_map_VStr: "sum_list_map (str_add s) (map VStr ks) = Inr (map ((@) s) ks)"
  by (induction ks) (simp_all add: str_add_def)

section \<open>Properties of the store\<close>

subsection \<open>Deleting documents\<close>

lemma bulk_deletes_append: "bulk_deletes (es @ fs) = bulk_deletes es @ bulk_deletes fs"
  by (induction es rule: bulk_deletes.induct) simp_all

lemma bulk_deletes_map: "bulk_deletes (map (\<lambda>c. EvDeleteObjects (f c)) cs) = map f cs"
  by (induction cs) simp_all

lemma delete_chunks_strings:
  "s3_bucket (store w) = Some h \<Longrightarrow>
   fst (delete_chunks (map (map VStr) cs) w) = None \<and>
   store (snd (delete_chunks (map (map VStr) cs) w)) = store w \<and>
   trace (snd (delete_chunks (map (map VStr) cs) w)) =
     trace w @ map (\<lambda>c. EvDeleteObjects (map ((@) (sub_dir (store w))) c)) cs"
proof (induction cs arbitrary: w)
  case Nil
  then show ?case by simp
next
  case (Cons c cs)
  let ?w = "s3_delete_objects (map ((@) (sub_dir (store w))) c) w"
  have st: "store ?w = store w" and tr: "trace ?w = trace w @ [EvDeleteObjects (map ((@) (sub_dir (store w))) c)]"
    by (simp_all add: s3_delete_objects_def log_event_def)
  have step: "delete_chunks (map (map VStr) (c # cs)) w = delete_chunks (map (map VStr) cs) ?w"
    using Cons.prems by (simp add: sum_list_map_VStr)
  have "s3_bucket (store ?w) = Some h"
    using Cons.prems st by simp
  from Cons.IH [OF this] show ?case
    unfolding step by (simp add: st tr)
qed

text \<open>
  C5. \<open>remove_docs(criteria, remove_s3_object=True)\<close> on a connected store whose matching
  key values are the strings \<open>ks\<close> (as they are after any \<open>update\<close>, see
  \<open>update_keeps_string_keys\<close>): the call returns normally, and the bulk deletes it
  issues are the consecutive chunks of \<open>ks\<close> of at most 1000 keys, each key with the
  \<open>sub_dir\<close> prefix, one call per chunk. The chunks are all full but possibly the last;
  for 2500 keys they are three, of 1000, 1000 and 500 keys.
\<close>

theorem remove_docs_bulk_delete_chunks:
  assumes "s3_bucket (store w) = Some h"
    and "idx_distinct (index (store w)) (key (store w)) criteria = map VStr ks"
  shows "fst (S3Store_remove_docs w criteria True) = None
       \<and> bulk_deletes (trace (snd (S3Store_remove_docs w criteria True)))
           = bulk_deletes (trace w) @ map (map ((@) (sub_dir (store w)))) (grouper ks 1000)
       \<and> concat (grouper ks 1000) = ks
       \<and> (\<forall>c \<in> set (grouper ks 1000). c \<noteq> [] \<and> length c \<le> 1000)
       \<and> map length (grouper ks 1000)
           = replicate (length ks div 1000) 1000
             @ (if length ks mod 1000 = 0 then [] else [length ks mod 1000])
       \<and> (length ks = 2500 \<longrightarrow> map length (grouper ks 1000) = [1000, 1000, 500])"
proof -
  let ?w2 = "log_event EvIndexRemove (set_index
               (idx_remove_docs (index (store (log_event (EvIndexDistinct (key (store w))) w))) criteria)
               (log_event (EvIndexDistinct (key (store w))) w))"
  have run: "S3Store_remove_docs w criteria True = delete_chunks (map (map VStr) (grouper ks 1000)) ?w2"
    using assms(2) by (simp add: S3Store_remove_docs_def Let_def grouper_map log_event_def)
  have h: "s3_bucket (store ?w2) = Some h"
    using assms(1) by (simp add: log_event_def set_index_def)
  have sd: "sub_dir (store ?w2) = sub_dir (store w)"
    by (simp add: log_event_def set_index_def)
  have tr: "bulk_deletes (trace ?w2) = bulk_deletes (trace w)"
    by (simp add: log_event_def set_index_def bulk_deletes_append)
  have len: "map length (grouper ks 1000)
           = replicate (length ks div 1000) 1000
             @ (if length ks mod 1000 = 0 then [] else [length ks mod 1000])"
    by (rule grouper_lengths) simp
  have "length ks = 2500 \<longrightarrow> map length (grouper ks 1000) = [1000, 1000, 500]"
    unfolding len by (simp add: numeral_2_eq_2)
  moreover have "\<forall>c \<in> set (grouper ks 1000). c \<noteq> [] \<and> length c \<le> 1000"
    using grouper_chunks by blast
  moreover have "concat (grouper ks 1000) = ks"
    by (rule grouper_concat) simp
  ultimately show ?thesis
    using delete_chunks_strings [OF h, of "grouper ks 1000"] len
    unfolding run by (simp add: sd tr bulk_deletes_append bulk_deletes_map)
qed

lemma distinct_many_keys: "distinct (many_keys n)"
  by (auto simp: many_keys_def distinct_map inj_on_def dest: arg_cong [of _ _ length])

lemma idx_distinct_keyed:
  "distinct ks \<Longrightarrow>
   idx_distinct (index (store (example_world (keyed_entries ks) obs))) ''task_id'' (\<lambda>d. True)
     = map VStr ks"
proof -
  have "List.map_filter (\<lambda>d. map_of d ''task_id'') (keyed_entries ks) = map VStr ks"
    by (induction ks) (simp_all add: keyed_entries_def List.map_filter_simps)
  moreover assume "distinct ks"
  then have "distinct (map VStr ks)"
    by (simp add: distinct_map inj_on_def)
  ultimately show ?thesis
    by (simp add: idx_distinct_def example_world_def example_store_def distinct_remdups_id)
qed

theorem remove_docs_bulk_delete_chunks_witness:
  "fst (S3Store_remove_docs (example_world (keyed_entries (many_keys 2500)) Map.empty)
          (\<lambda>d. True) True) = None
   \<and> map length (bulk_deletes (trace (snd (S3Store_remove_docs
          (example_world (keyed_entries (many_keys 2500)) Map.empty) (\<lambda>d. True) True))))
       = [1000, 1000, 500]"
proof -
  let ?w = "example_world (keyed_entries (many_keys 2500)) Map.empty"
  have h: "s3_bucket (store ?w) = Some ''bucket''"
    by (simp add: example_world_def example_store_def)
  have k: "idx_distinct (index (store ?w)) (key (store ?w)) (\<lambda>d. True) = map VStr (many_keys 2500)"
    using idx_distinct_keyed [OF distinct_many_keys, of 2500 Map.empty]
    by (simp add: example_world_def example_store_def)
  have n: "length (many_keys 2500) = 2500"
    by (simp add: many_keys_def)
  have t: "trace ?w = []"
    by (simp add: example_world_def)
  note r = remove_docs_bulk_delete_chunks [OF h k]
  from r have 1: "fst (S3Store_remove_docs ?w (\<lambda>d. True) True) = None"
    by blast
  from r n have 2: "map length (grouper (many_keys 2500) 1000) = [1000, 1000, 500]"
    by blast
  from r t have "bulk_deletes (trace (snd (S3Store_remove_docs ?w (\<lambda>d. True) True)))
      = map (map ((@) (sub_dir (store ?w)))) (grouper (many_keys 2500) 1000)"
    by simp
  then have "map length (bulk_deletes (trace (snd (S3Store_remove_docs ?w (\<lambda>d. True) True))))
      = map length (grouper (many_keys 2500) 1000)"
    by (simp add: comp_def)
  with 1 2 show ?thesis by simp
qed

text \<open>
  C7. \<open>remove_docs(criteria)\<close> with \<open>remove_s3_object\<close> false returns normally, removes
  from the index exactly the entries matching the criteria, makes one call, on the index,
  and none on the bucket, whose objects are all as they were.
\<close>

theorem remove_docs_index_only:
  "fst (S3Store_remove_docs w criteria False) = None
   \<and> backend (snd (S3Store_remove_docs w criteria False)) = backend w
   \<and> trace (snd (S3Store_remove_docs w criteria False)) = trace w @ [EvIndexRemove]
   \<and> filter is_backend_event (trace (snd (S3Store_remove_docs w criteria False)))
       = filter is_backend_event (trace w)
   \<and> idocs (index (store (snd (S3Store_remove_docs w criteria False))))
       = filter (\<lambda>d. \<not> criteria d) (idocs (index (store w)))"
  by (simp add: S3Store_remove_docs_def log_event_def set_index_def idx_remove_docs_def)

subsection \<open>Querying\<close>

lemma s3_get_snd: "snd (s3_get k w) = log_event (EvGet k) w"
  by (simp add: s3_get_def Let_def split: option.splits)

lemma s3_get_fst: "backend w1 = backend w2 \<Longrightarrow> fst (s3_get k w1) = fst (s3_get k w2)"
  by (simp add: s3_get_def Let_def split: option.splits)

lemma query_entry_frame:
  "store (snd (query_entry L p d w)) = store w \<and> backend (snd (query_entry L p d w)) = backend w"
  by (simp add: query_entry_def case_prod_beta s3_get_snd log_event_def
        split: option.splits sum.splits)

lemma query_entry_cong:
  assumes "store w1 = store w2" and "backend w1 = backend w2"
  shows "fst (query_entry L p d w1) = fst (query_entry L p d w2)"
  using assms(1)
  by (simp add: query_entry_def case_prod_beta s3_get_fst [OF assms(2)]
        split: option.splits sum.splits)

lemma query_loop_stops:
  assumes "list_all2 (\<lambda>e v. fst (query_entry L p e w) = Yield v) pre vs"
    and "fst (query_entry L p x w) = Break"
  shows "fst (query_loop L p (pre @ x # post) w) = (vs, None)"
  using assms
proof (induction pre arbitrary: vs w)
  case Nil
  then show ?case by (cases "query_entry L p x w") simp
next
  case (Cons e pre)
  then obtain v vs' where vs: "vs = v # vs'" and hd: "fst (query_entry L p e w) = Yield v"
    and tl: "list_all2 (\<lambda>e v. fst (query_entry L p e w) = Yield v) pre vs'"
    by (auto simp: list_all2_Cons1)
  obtain w' where qe: "query_entry L p e w = (Yield v, w')"
    using hd by (cases "query_entry L p e w") simp
  have fr: "store w' = store w" "backend w' = backend w"
    using query_entry_frame [of L p e w] qe by simp_all
  have tl': "list_all2 (\<lambda>e v. fst (query_entry L p e w') = Yield v) pre vs'"
    using tl query_entry_cong [OF fr] by simp
  have br: "fst (query_entry L p x w') = Break"
    using Cons.prems(2) query_entry_cong [OF fr] by simp
  from Cons.IH [OF tl' br] show ?case
    by (auto simp: qe vs split: prod.splits)
qed

lemma query_loop_raises:
  assumes "list_all2 (\<lambda>e v. fst (query_entry L p e w) = Yield v) pre vs"
    and "fst (query_entry L p x w) = Raise err"
  shows "fst (query_loop L p (pre @ x # post) w) = (vs, Some err)"
  using assms
proof (induction pre arbitrary: vs w)
  case Nil
  then show ?case by (cases "query_entry L p x w") simp
next
  case (Cons e pre)
  then obtain v vs' where vs: "vs = v # vs'" and hd: "fst (query_entry L p e w) = Yield v"
    and tl: "list_all2 (\<lambda>e v. fst (query_entry L p e w) = Yield v) pre vs'"
    by (auto simp: list_all2_Cons1)
  obtain w' where qe: "query_entry L p e w = (Yield v, w')"
    using hd by (cases "query_entry L p e w") simp
  have fr: "store w' = store w" "backend w' = backend w"
    using query_entry_frame [of L p e w] qe by simp_all
  have tl': "list_all2 (\<lambda>e v. fst (query_entry L p e w') = Yield v) pre vs'"
    using tl query_entry_cong [OF fr] by simp
  have br: "fst (query_entry L p x w') = Raise err"
    using Cons.prems(2) query_entry_cong [OF fr] by simp
  from Cons.IH [OF tl' br] show ?case
    by (auto simp: qe vs split: prod.splits)
qed

text \<open>
  The \<open>break\<close> is taken when the service answers the fetch with an error code that
  \<open>int\<close> reads as \<open>404\<close>: the query then ends after the documents yielded so far.
\<close>

lemma query_entry_code_404:
  assumes "p = PNone \<or> \<not> set (props_names p) \<subseteq> fst ` set x"
    and "s3_bucket (store w) = Some h"
    and "map_of x (key (store w)) = Some (VStr k)"
    and "faults (backend w) (sub_dir (store w) @ k) = Some c"
    and "py_int c = Inr 404"
  shows "fst (query_entry L p x w) = Break"
  using assms
  by (auto simp: query_entry_def fetched_def getitem_def str_add_def s3_get_def Let_def)

text \<open>
  The answer to the fetch of a key that has no object has the error code \<open>NoSuchKey\<close>,
  which \<open>int\<close> does not read: the \<open>except\<close> clause raises a \<open>ValueError\<close> of its own.
\<close>

lemma int_NoSuchKey: "py_int (VStr ''NoSuchKey'') = Inl ValueError"
  by (simp add: int_of_string_def strip_spaces_def is_space_def is_digit_def)

lemma query_entry_missing_blob:
  assumes "p = PNone \<or> \<not> set (props_names p) \<subseteq> fst ` set x"
    and "s3_bucket (store w) = Some h"
    and "map_of x (key (store w)) = Some (VStr k)"
    and "faults (backend w) (sub_dir (store w) @ k) = None"
    and "objects (backend w) (sub_dir (store w) @ k) = None"
  shows "fst (query_entry L p x w) = Raise ValueError"
  using assms int_NoSuchKey
  by (auto simp: query_entry_def fetched_def getitem_def str_add_def s3_get_def Let_def)

lemma query_raises_at_a_missing_blob:
  assumes "idx_query (index (store w)) criteria sort_by limit skip = pre @ x # post"
    and "list_all2 (\<lambda>e v. fst (query_entry L p e w) = Yield v) pre vs"
    and "p = PNone \<or> \<not> set (props_names p) \<subseteq> fst ` set x"
    and "s3_bucket (store w) = Some h"
    and "map_of x (key (store w)) = Some (VStr k)"
    and "faults (backend w) (sub_dir (store w) @ k) = None"
    and "objects (backend w) (sub_dir (store w) @ k) = None"
  shows "fst (S3Store_query L w criteria p sort_by skip limit) = (vs, Some ValueError)"
proof -
  let ?w = "log_event EvIndexQuery w"
  have fr: "store ?w = store w" "backend ?w = backend w"
    by (simp_all add: log_event_def)
  have "fst (query_entry L p x w) = Raise ValueError"
    using assms(3-7) by (rule query_entry_missing_blob)
  then have br: "fst (query_entry L p x ?w) = Raise ValueError"
    using query_entry_cong [OF fr] by simp
  have pre: "list_all2 (\<lambda>e v. fst (query_entry L p e ?w) = Yield v) pre vs"
    using assms(2) query_entry_cong [OF fr] by simp
  show ?thesis
    unfolding S3Store_query_def assms(1) using query_loop_raises [OF pre br] .
qed

text \<open>
  C3. A query with no \<open>properties\<close> on a connected store with three index entries, of
  which the second has no blob in the bucket: the query yields the first document and
  then raises a \<open>ValueError\<close>, where the claim has it end there without raising. The
  bucket answers the fetch with the error code \<open>NoSuchKey\<close>, and the \<open>except\<close> clause
  calls \<open>int\<close> on the error code before it compares it with \<open>404\<close>.
\<close>

theorem query_raises_at_missing_blob:
  "fst (S3Store_query example_libs three_entries_world every_doc PNone as_stored 0 0)
     = ([VDict doc_a], Some ValueError)"
proof -
  let ?w = three_entries_world
  have q: "idx_query (index (store ?w)) every_doc as_stored 0 0
             = [[(''task_id'', VStr ''a'')]] @ [(''task_id'', VStr ''b'')] # [[(''task_id'', VStr ''c'')]]"
    by (simp add: three_entries_world_def example_world_def example_store_def idx_query_def
          keyed_entries_def every_doc_def as_stored_def)
  have pre: "list_all2 (\<lambda>e v. fst (query_entry example_libs PNone e ?w) = Yield v)
               [[(''task_id'', VStr ''a'')]] [VDict doc_a]"
    by (simp add: three_entries_world_def example_world_def example_store_def query_entry_def
          fetched_def getitem_def str_add_def s3_get_def log_event_def example_libs_def blob_of_def
          doc_a_def doc_b_def doc_c_def quoted_def)
  have h: "s3_bucket (store ?w) = Some ''bucket''"
    and k: "map_of [(''task_id'', VStr ''b'')] (key (store ?w)) = Some (VStr ''b'')"
    and f: "faults (backend ?w) (sub_dir (store ?w) @ ''b'') = None"
    and ob: "objects (backend ?w) (sub_dir (store ?w) @ ''b'') = None"
    by (simp_all add: three_entries_world_def example_world_def example_store_def)
  show ?thesis
    using query_raises_at_a_missing_blob [OF q pre _ h k f ob] by simp
qed

subsection \<open>Updating\<close>

lemma index_commits_append: "index_commits (es @ fs) = index_commits es @ index_commits fs"
  by (induction es rule: index_commits.induct) simp_all

lemma index_commits_puts: "list_all is_put es \<Longrightarrow> index_commits es = []"
  by (induction es rule: index_commits.induct) simp_all

lemma metadata_checked: "metadata_error meta = None \<Longrightarrow> list_all is_str (map snd meta)"
  by (induction meta rule: metadata_error.induct)
     (auto simp: is_str_def split: if_splits val.splits)

lemma s3_put_object_frame:
  "store (snd (s3_put_object k data meta w)) = store w
   \<and> trace (snd (s3_put_object k data meta w)) = trace w @ [EvPut k data meta]"
  by (simp add: s3_put_object_def log_event_def Let_def split: option.splits)

lemma write_doc_to_s3_frame:
  "store (snd (write_doc_to_s3 L d sk w)) = store w
   \<and> (\<exists>puts. trace (snd (write_doc_to_s3 L d sk w)) = trace w @ puts \<and> list_all is_put puts)"
proof (cases "prepare_write L (store w) d sk")
  case (Inl e)
  then show ?thesis by (simp add: write_doc_to_s3_def)
next
  case (Inr r)
  obtain k data sd where r: "r = (k, data, sd)" by (cases r) auto
  show ?thesis
  proof (cases "s3_bucket (store w)")
    case None
    with Inr r show ?thesis by (simp add: write_doc_to_s3_def)
  next
    case (Some h)
    have "snd (write_doc_to_s3 L d sk w) = snd (s3_put_object k data sd w)"
      using Inr r Some by (simp add: write_doc_to_s3_def split: prod.splits option.splits)
    then show ?thesis using s3_put_object_frame [of k data sd w] by simp
  qed
qed

lemma run_writes_frame:
  "store (snd (run_writes L sk ds w)) = store w
   \<and> (\<exists>puts. trace (snd (run_writes L sk ds w)) = trace w @ puts \<and> list_all is_put puts)"
proof (induction ds arbitrary: w)
  case Nil
  then show ?case by simp
next
  case (Cons d ds)
  let ?w = "snd (write_doc_to_s3 L d sk w)"
  have snd_eq: "snd (run_writes L sk (d # ds) w) = snd (run_writes L sk ds ?w)"
    by (simp add: case_prod_beta)
  from write_doc_to_s3_frame [of L d sk w] obtain p1 where
    1: "store ?w = store w" "trace ?w = trace w @ p1" "list_all is_put p1" by blast
  from Cons.IH [of ?w] obtain p2 where
    2: "store (snd (run_writes L sk ds ?w)) = store ?w"
       "trace (snd (run_writes L sk ds ?w)) = trace ?w @ p2" "list_all is_put p2" by blast
  have "trace (snd (run_writes L sk ds ?w)) = trace w @ (p1 @ p2) \<and> list_all is_put (p1 @ p2)"
    using 1 2 by simp
  then show ?case unfolding snd_eq using 1 2 by metis
qed

lemma results_error: "\<exists>r \<in> set fs. isl r \<Longrightarrow> \<exists>e. results fs = Inl e \<and> Inl e \<in> set fs"
  by (induction fs rule: results.induct) (auto split: sum.splits)

text \<open>
  C1. \<open>update(docs)\<close> with a pool of at least one worker, under any schedule of the
  tasks and any order in which the futures are read; \<open>fs\<close> are the results of the blob
  writes and \<open>w1\<close> the state when all of them are done. Every call on the bucket comes
  before the commit to the index, which is the last call if it is made at all. And if a
  blob write raised, \<open>update\<close> raises the error of a write that raised, the state is the
  one the writes left, the index is the one before the call, and no commit to the index
  was made.
\<close>

theorem update_fails_when_a_write_fails:
  assumes "\<forall>fs. mset (done_order s fs) = mset fs"
    and "0 < s3_workers (store w)"
    and "run_writes L (search_keys_of (store w) k) (run_order s docs) w = (fs, w1)"
  shows "(\<exists>puts commit. trace (snd (S3Store_update L s w docs k)) = trace w @ puts @ commit
            \<and> trace w1 = trace w @ puts \<and> list_all is_put puts
            \<and> (commit = [] \<or> (\<exists>sds. commit = [EvIndexUpdate sds])))
       \<and> ((\<exists>r \<in> set fs. isl r) \<longrightarrow>
            (\<exists>e. fst (S3Store_update L s w docs k) = Some e \<and> Inl e \<in> set fs)
            \<and> snd (S3Store_update L s w docs k) = w1
            \<and> index (store w1) = index (store w)
            \<and> index_commits (trace w1) = index_commits (trace w))"
proof -
  from run_writes_frame [of L "search_keys_of (store w) k" "run_order s docs" w] assms(3)
  obtain puts where st: "store w1 = store w" and tr: "trace w1 = trace w @ puts"
    and puts: "list_all is_put puts" by auto
  have set_eq: "set (done_order s fs) = set fs"
    using assms(1) by (metis set_mset_mset)
  have ordering: "\<exists>commit. trace (snd (S3Store_update L s w docs k)) = trace w @ puts @ commit
            \<and> (commit = [] \<or> (\<exists>sds. commit = [EvIndexUpdate sds]))"
    using assms(2,3) tr
    by (auto simp: S3Store_update_def Let_def log_event_def set_index_def split: sum.splits)
  have failing: "(\<exists>e. fst (S3Store_update L s w docs k) = Some e \<and> Inl e \<in> set fs)
            \<and> snd (S3Store_update L s w docs k) = w1" if "\<exists>r \<in> set fs. isl r"
  proof -
    from that set_eq have "\<exists>r \<in> set (done_order s fs). isl r" by simp
    from results_error [OF this] obtain e where "results (done_order s fs) = Inl e"
      and "Inl e \<in> set fs" using set_eq by auto
    then show ?thesis
      using assms(2,3) by (auto simp: S3Store_update_def Let_def)
  qed
  show ?thesis
    using ordering failing st tr puts
    by (auto simp: index_commits_append index_commits_puts)
qed

theorem update_fails_when_a_write_fails_witness:
  "fst (S3Store_update example_libs in_order (example_world [] Map.empty) [doc_a, doc_nokey] KeyNone)
     = Some (KeyError ''task_id'')
   \<and> idocs (index (store (snd (S3Store_update example_libs in_order (example_world [] Map.empty)
        [doc_a, doc_nokey] KeyNone)))) = []"
proof -
  let ?w = "example_world [] Map.empty"
  let ?run = "run_writes example_libs (search_keys_of (store ?w) KeyNone)
                (run_order in_order [doc_a, doc_nokey]) ?w"
  have fair: "\<forall>fs. mset (done_order in_order fs) = mset fs"
    by (simp add: in_order_def)
  have workers: "0 < s3_workers (store ?w)"
    by (simp add: example_world_def example_store_def)
  have run: "?run = (fst ?run, snd ?run)"
    by simp
  have fs: "fst ?run = [Inr [(''task_id'', VStr ''a''), (''sub_dir'', VStr ''data/'')],
                        Inl (KeyError ''task_id'')]"
    by (simp add: example_world_def example_store_def search_keys_of_def in_order_def
          write_doc_to_s3_def prepare_write_def getitem_def doc_a_def doc_nokey_def
          example_libs_def s3_put_object_def log_event_def ascii_def case_prod_beta)
  note r = update_fails_when_a_write_fails [OF fair workers run]
  from r fs have e: "fst (S3Store_update example_libs in_order ?w [doc_a, doc_nokey] KeyNone)
      = Some (KeyError ''task_id'')"
    by auto
  from r fs have "idocs (index (store (snd (S3Store_update example_libs in_order ?w
        [doc_a, doc_nokey] KeyNone)))) = idocs (index (store ?w))"
    by auto
  with e show ?thesis
    by (simp add: example_world_def example_store_def)
qed

subsection \<open>Rebuilding the metadata\<close>

lemma keys_delete: "fst ` set (AList.delete k d) = fst ` set d - {k}"
  by (induction d) auto

lemma rebuild_entry_with_id:
  assumes "map_of d (key (store w)) = Some (VStr k)"
    and "s3_bucket (store w) = Some h"
    and "faults (backend w) (sub_dir (store w) @ k) = None"
    and "objects (backend w) (sub_dir (store w) @ k) = Some ob"
    and "''_id'' \<in> fst ` set (merged_meta (metadata ob) d)"
    and "metadata_error (AList.delete ''_id'' (merged_meta (metadata ob) d)) = None"
  shows "fst (rebuild_entry d w) = None
       \<and> objects (backend (snd (rebuild_entry d w)))
           = (objects (backend w))(sub_dir (store w) @ k \<mapsto>
                ob\<lparr>metadata := AList.delete ''_id'' (merged_meta (metadata ob) d)\<rparr>)"
  using assms
  by (simp add: rebuild_entry_def getitem_def str_add_def s3_metadata_def dict_pop_def
        s3_copy_replace_def log_event_def Let_def)

lemma rebuild_entry_without_id:
  assumes "map_of d (key (store w)) = Some (VStr k)"
    and "s3_bucket (store w) = Some h"
    and "faults (backend w) (sub_dir (store w) @ k) = None"
    and "objects (backend w) (sub_dir (store w) @ k) = Some ob"
    and "''_id'' \<notin> fst ` set (merged_meta (metadata ob) d)"
  shows "fst (rebuild_entry d w) = Some (KeyError ''_id'')
       \<and> backend (snd (rebuild_entry d w)) = backend w"
  using assms
  by (simp add: rebuild_entry_def getitem_def str_add_def s3_metadata_def dict_pop_def
        log_event_def Let_def)

text \<open>
  C8. \<open>rebuild_metadata_from_index\<close> on a store with one index entry, which has no \<open>_id\<close>
  field, and its blob, whose metadata has none either: the call raises \<open>KeyError\<close> at
  \<open>new_meta.pop("_id")\<close> and the object is as it was, its metadata not rewritten.
  (\<open>rebuild_entry_with_id\<close> is the other case: with an \<open>_id\<close> in the merged
  metadata the object gets the merged, lower-cased metadata without \<open>_id\<close>, and keeps
  its body.)
\<close>

theorem rebuild_metadata_raises_without_id:
  "fst (S3Store_rebuild_metadata_from_index one_entry_world None) = Some (KeyError ''_id'')
   \<and> objects (backend (snd (S3Store_rebuild_metadata_from_index one_entry_world None))) ''data/a''
       = Some (blob_of doc_a)"
  by (simp add: S3Store_rebuild_metadata_from_index_def one_entry_world_def example_world_def
        example_store_def keyed_entries_def idx_query_def rebuild_entry_def getitem_def
        str_add_def s3_metadata_def dict_pop_def merged_meta_def lower_keys_def lower_def
        lower_char_def blob_of_def doc_a_def log_event_def Let_def)

subsection \<open>Equality and hashing\<close>

lemma hash_arg_eq_iff:
  "S3Store_hash_arg a = S3Store_hash_arg b \<longleftrightarrow> ioid (index a) = ioid (index b) \<and> bucket a = bucket b"
  by (simp add: S3Store_hash_arg_def)

text \<open>
  C4. Two store objects that \<open>__eq__\<close> finds equal, over two index objects of equal
  configuration: the values that \<open>__hash__\<close> hands to \<open>hash\<close> differ, since they hold the
  bound method of each index object, which is hashed by the identity of the object.
\<close>

theorem equal_stores_hash_different_objects:
  "S3Store_eq (example_store []) (AnS3Store same_store_elsewhere)
   \<and> S3Store_hash_arg (example_store []) \<noteq> S3Store_hash_arg same_store_elsewhere"
  by (simp add: S3Store_eq_def Store_eq_def S3Store_hash_arg_def same_store_elsewhere_def
        example_store_def)

subsection \<open>The key field\<close>

lemma map_of_update_same: "map_of (AList.update k v al) k = Some v"
  by (simp add: update_conv')

lemma delete_chunks_store: "store (snd (delete_chunks cs w)) = store w"
proof (induction cs arbitrary: w)
  case Nil
  then show ?case by simp
next
  case (Cons c cs)
  show ?case
    using Cons.IH [of "s3_delete_objects _ w"]
    by (simp add: s3_delete_objects_def log_event_def split: sum.splits option.splits)
qed

lemma remove_docs_keys: "keys_agree w \<Longrightarrow> keys_agree (snd (S3Store_remove_docs w c b))"
  by (simp add: keys_agree_def S3Store_remove_docs_def Let_def delete_chunks_store
        log_event_def set_index_def idx_remove_docs_def)

lemma query_loop_store: "store (snd (query_loop L p ds w)) = store w"
proof (induction ds arbitrary: w)
  case Nil
  then show ?case by simp
next
  case (Cons d ds)
  show ?case
    using Cons.IH [of "snd (query_entry L p d w)"] query_entry_frame [of L p d w]
    by (cases "query_entry L p d w"; cases "fst (query_entry L p d w)")
       (auto split: prod.splits)
qed

lemma query_keys: "keys_agree w \<Longrightarrow> keys_agree (snd (S3Store_query L w c p srt sk lim))"
  by (simp add: keys_agree_def S3Store_query_def query_loop_store log_event_def)

lemma update_keys: "keys_agree w \<Longrightarrow> keys_agree (snd (S3Store_update L s w docs k))"
proof -
  let ?r = "run_writes L (search_keys_of (store w) k) (run_order s docs) w"
  have st: "store (snd ?r) = store w"
    using run_writes_frame by blast
  assume "keys_agree w"
  then show ?thesis
    using st
    by (auto simp: keys_agree_def S3Store_update_def Let_def case_prod_beta log_event_def
          set_index_def idx_update_def split: sum.splits)
qed


lemma s3_metadata_snd: "snd (s3_metadata k w) = log_event (EvHead k) w"
  by (simp add: s3_metadata_def Let_def split: option.splits)

lemma s3_copy_replace_store: "store (snd (s3_copy_replace k m w)) = store w"
  by (simp add: s3_copy_replace_def log_event_def Let_def split: option.splits)

lemma rebuild_entry_store: "store (snd (rebuild_entry d w)) = store w"
proof -
  have "store (snd (s3_copy_replace k m (snd (s3_metadata k' w)))) = store w" for k m k'
    by (simp add: s3_copy_replace_store s3_metadata_snd log_event_def)
  then show ?thesis
    by (simp add: rebuild_entry_def case_prod_beta s3_metadata_snd log_event_def
          split: sum.splits option.splits)
qed

lemma rebuild_loop_store: "store (snd (rebuild_loop ds w)) = store w"
proof (induction ds arbitrary: w)
  case Nil
  then show ?case by simp
next
  case (Cons d ds)
  show ?case
    using Cons.IH [of "snd (rebuild_entry d w)"] rebuild_entry_store [of d w]
    by (cases "rebuild_entry d w"; cases "fst (rebuild_entry d w)") auto
qed

lemma rebuild_keys:
  "keys_agree w \<Longrightarrow> keys_agree (snd (S3Store_rebuild_metadata_from_index w c))"
  by (simp add: keys_agree_def S3Store_rebuild_metadata_from_index_def rebuild_loop_store
        log_event_def)

text \<open>
  C10. The store that the constructor returns has as its key field the string form of
  the key field of the index it wraps, whatever \<open>key\<close> the caller passed; and \<open>update\<close>,
  \<open>query\<close>, \<open>remove_docs\<close> and \<open>rebuild_metadata_from_index\<close> leave the two key fields
  equal when they were.
\<close>

theorem store_key_is_index_key:
  "(S3Store_init b idx bk prof c ep sd n kwargs = Inr st \<longrightarrow>
      key st = py_str (VStr (ikey idx)) \<and> index st = idx \<and> key st = ikey (index st))
   \<and> (keys_agree w \<longrightarrow>
        keys_agree (snd (S3Store_update L s w docs k))
        \<and> keys_agree (snd (S3Store_query L w crit p srt skip lim))
        \<and> keys_agree (snd (S3Store_remove_docs w crit rm))
        \<and> keys_agree (snd (S3Store_rebuild_metadata_from_index w q)))"
proof -
  have "key st = py_str (VStr (ikey idx)) \<and> index st = idx \<and> key st = ikey (index st)"
    if "S3Store_init b idx bk prof c ep sd n kwargs = Inr st"
    using that
    by (auto simp: S3Store_init_def Store_init_def Let_def map_of_update_same
             split: if_splits)
  then show ?thesis
    using update_keys query_keys remove_docs_keys rebuild_keys by blast
qed

theorem store_key_is_index_key_witness:
  "key (projr (S3Store_init True (index (example_store [])) ''bucket'' None False None
        (Some ''/data/'') 4 [(''key'', ''other_id'')])) = ''task_id''
   \<and> keys_agree (example_world [] Map.empty)
   \<and> keys_agree (snd (S3Store_update example_libs in_order (example_world [] Map.empty) [doc_a] KeyNone))"
proof -
  let ?i = "S3Store_init True (index (example_store [])) ''bucket'' None False None
        (Some ''/data/'') 4 [(''key'', ''other_id'')]"
  have i: "?i = Inr (projr ?i)"
    by (simp add: S3Store_init_def Store_init_def example_store_def)
  have a: "keys_agree (example_world [] Map.empty)"
    by (simp add: keys_agree_def example_world_def example_store_def)
  from store_key_is_index_key [of True "index (example_store [])" "''bucket''" None False None
        "Some ''/data/''" 4 "[(''key'', ''other_id'')]" "projr ?i" "example_world [] Map.empty"
        example_libs in_order "[doc_a]" KeyNone] i a
  show ?thesis
    by (simp add: example_store_def)
qed

subsection \<open>Writing, then reading\<close>

lemma pick_fields_other:
  "pick_fields d ks acc = Inr sd \<Longrightarrow> x \<notin> set ks \<Longrightarrow> map_of sd x = map_of acc x"
  by (induction ks arbitrary: acc) (auto simp: update_conv' split: sum.splits)

lemma in_keys_iff: "k \<in> fst ` set d \<longleftrightarrow> map_of d k \<noteq> None"
  by (simp add: map_of_eq_None_iff)

lemma prepare_write_entry:
  assumes H1: "key st \<notin> {''sub_dir'', ''_id'', ''compression'', last_updated_field st}"
    and H2: "compress st \<or> ''compression'' \<notin> set sk"
    and H3: "last_updated_field st \<noteq> ''compression''"
    and pw: "prepare_write L st D sk = Inr (kk, data, sd)"
  shows "\<exists>kv b. map_of D (key st) = Some kv \<and> map_of sd (key st) = Some kv
           \<and> kk = sub_dir st @ py_str kv
           \<and> packb L D = Inr b \<and> data = (if compress st then zlib_compress L b else b)
           \<and> (map_of sd ''compression'' = Some (VStr ''zlib'')) = compress st"
proof -
  from pw obtain sd0 where p: "pick_fields D sk [] = Inr sd0"
    by (auto simp: prepare_write_def split: sum.splits)
  from pw p obtain kv where kv: "map_of D (key st) = Some kv"
    by (auto simp: prepare_write_def getitem_def split: sum.splits option.splits)
  from pw p kv obtain b where b: "packb L D = Inr b"
    by (auto simp: prepare_write_def getitem_def Let_def split: sum.splits option.splits)
  have c0: "\<not> compress st \<Longrightarrow> map_of sd0 ''compression'' = None"
    using pick_fields_other [OF p, of "''compression''"] H2 by simp
  show ?thesis
    using pw p kv b H1 H3 c0
    by (auto simp: prepare_write_def getitem_def Let_def update_conv' delete_conv' in_keys_iff
             split: sum.splits option.splits if_splits)
qed


lemma prepare_write_faithful:
  assumes nc: "\<not> clashes L st D sk"
    and pw: "prepare_write L st D sk = Inr (kk, data, sd)"
  shows "\<exists>kv b. map_of D (key st) = Some kv \<and> map_of sd (key st) = Some kv
           \<and> kk = sub_dir st @ py_str kv
           \<and> packb L D = Inr b \<and> data = (if compress st then zlib_compress L b else b)
           \<and> (map_of sd ''compression'' = Some (VStr ''zlib'')) = compress st"
proof -
  from pw obtain sd0 where p: "pick_fields D sk [] = Inr sd0"
    by (auto simp: prepare_write_def split: sum.splits)
  from pw p obtain kv where kv: "map_of D (key st) = Some kv"
    by (auto simp: prepare_write_def getitem_def split: sum.splits option.splits)
  from pw p kv obtain b where b: "packb L D = Inr b"
    by (auto simp: prepare_write_def getitem_def Let_def split: sum.splits option.splits)
  from pw p kv b have shape: "kk = sub_dir st @ py_str kv
      \<and> data = (if compress st then zlib_compress L b else b)"
    by (auto simp: prepare_write_def getitem_def Let_def split: sum.splits option.splits if_splits)
  from nc pw have "map_of sd (key st) = map_of D (key st)
      \<and> (map_of sd ''compression'' = Some (VStr ''zlib'')) = compress st"
    by (simp add: clashes_def)
  with kv b shape show ?thesis by simp
qed

text \<open>
  There is no clash when the key field is none of the names the store writes or
  re-encodes, and the marker's name is neither a search key of a store that does not
  compress nor the last-updated field.
\<close>

lemma no_clash:
  assumes "key st \<notin> {''sub_dir'', ''_id'', ''compression'', last_updated_field st}"
    and "compress st \<or> ''compression'' \<notin> set sk"
    and "last_updated_field st \<noteq> ''compression''"
  shows "\<not> clashes L st D sk"
proof (cases "prepare_write L st D sk")
  case (Inl e)
  then show ?thesis by (simp add: clashes_def)
next
  case (Inr r)
  obtain kk data sd where r: "r = (kk, data, sd)" by (cases r) auto
  from prepare_write_entry [OF assms Inr [unfolded r]] Inr r show ?thesis
    by (auto simp: clashes_def)
qed

lemma write_doc_to_s3_ok:
  assumes "write_doc_to_s3 L D sk w = (Inr sd, w')"
  shows "\<exists>kk data h. prepare_write L (store w) D sk = Inr (kk, data, sd)
           \<and> s3_bucket (store w) = Some h
           \<and> list_all is_str (map snd sd)
           \<and> faults (backend w) kk = None
           \<and> store w' = store w
           \<and> faults (backend w') = faults (backend w)
           \<and> objects (backend w') = (objects (backend w))(kk \<mapsto> \<lparr>body = data, metadata = sd\<rparr>)"
proof (cases "prepare_write L (store w) D sk")
  case (Inl e)
  with assms show ?thesis by (simp add: write_doc_to_s3_def)
next
  case (Inr r)
  obtain kk data sd' where r: "r = (kk, data, sd')" by (cases r) auto
  from assms Inr r obtain h where h: "s3_bucket (store w) = Some h"
    by (cases "s3_bucket (store w)") (auto simp: write_doc_to_s3_def)
  from assms Inr r h have put: "s3_put_object kk data sd' w = (None, w')" and sd: "sd' = sd"
    by (auto simp: write_doc_to_s3_def split: prod.splits option.splits)
  from put have "metadata_error sd' = None \<and> faults (backend w) kk = None
      \<and> w' = (log_event (EvPut kk data sd') w)\<lparr>backend := (backend w)\<lparr>objects :=
                       (objects (backend w))(kk \<mapsto> \<lparr>body = data, metadata = sd'\<rparr>)\<rparr>\<rparr>"
    by (auto simp: s3_put_object_def Let_def split: if_splits option.splits)
  with metadata_checked [of sd']
  have "list_all is_str (map snd sd') \<and> faults (backend w) kk = None
      \<and> w' = (log_event (EvPut kk data sd') w)\<lparr>backend := (backend w)\<lparr>objects :=
                       (objects (backend w))(kk \<mapsto> \<lparr>body = data, metadata = sd'\<rparr>)\<rparr>\<rparr>"
    by (intro conjI) simp_all
  then show ?thesis
    using Inr r h sd by (auto simp: log_event_def)
qed

lemma run_writes_Cons:
  "run_writes L sk (d # ds) w = (fs, w1) \<longleftrightarrow>
     (\<exists>r w' rs. write_doc_to_s3 L d sk w = (r, w') \<and> run_writes L sk ds w' = (rs, w1) \<and> fs = r # rs)"
  by (auto split: prod.splits)

text \<open>A string key value is determined by the object key.\<close>

lemma validated_key:
  assumes "list_all is_str (map snd sd)" and "map_of sd k = Some kv"
  shows "\<exists>s. kv = VStr s"
proof -
  from assms(2) have "(k, kv) \<in> set sd" by (rule map_of_SomeD)
  with assms(1) have "is_str kv" by (auto simp: list_all_iff)
  then show ?thesis by (cases kv) (simp_all add: is_str_def)
qed

lemma run_writes_keeps_object:
  assumes nc: "\<forall>D' \<in> insert D (set ds). \<not> clashes L (store w) D' sk"
    and run: "run_writes L sk ds w = (fs, w1)"
    and ok: "\<forall>r \<in> set fs. \<not> isl r"
    and pw: "prepare_write L (store w) D sk = Inr (kk, data, sd)"
    and val: "list_all is_str (map snd sd)"
    and ob: "objects (backend w) kk = Some \<lparr>body = data, metadata = sd\<rparr>"
    and uniq: "\<forall>D' \<in> set ds. map_of D' (key (store w)) = map_of D (key (store w)) \<longrightarrow> D' = D"
  shows "objects (backend w1) kk = Some \<lparr>body = data, metadata = sd\<rparr>"
  using assms
proof (induction ds arbitrary: w fs)
  case Nil
  then show ?case by simp
next
  case (Cons d ds)
  from Cons.prems(2) obtain r w' rs where
    wr: "write_doc_to_s3 L d sk w = (r, w')" and rest: "run_writes L sk ds w' = (rs, w1)"
    and fs: "fs = r # rs"
    unfolding run_writes_Cons by blast
  from Cons.prems(3) fs obtain sd_d where r: "r = Inr sd_d"
    by (cases r) auto
  from write_doc_to_s3_ok [OF wr [unfolded r]] obtain kk_d data_d where
    pw_d: "prepare_write L (store w) d sk = Inr (kk_d, data_d, sd_d)"
    and val_d: "list_all is_str (map snd sd_d)"
    and st: "store w' = store w"
    and obs: "objects (backend w') = (objects (backend w))(kk_d \<mapsto> \<lparr>body = data_d, metadata = sd_d\<rparr>)"
    by blast
  from Cons.prems(1) have nc_d: "\<not> clashes L (store w) d sk"
    and nc_D: "\<not> clashes L (store w) D sk" by simp_all
  have ob': "objects (backend w') kk = Some \<lparr>body = data, metadata = sd\<rparr>"
  proof (cases "kk_d = kk")
    case False
    then show ?thesis using obs Cons.prems(6) by simp
  next
    case True
    from prepare_write_faithful [OF nc_d pw_d] obtain kv_d where
      d1: "map_of d (key (store w)) = Some kv_d" and d2: "map_of sd_d (key (store w)) = Some kv_d"
      and d3: "kk_d = sub_dir (store w) @ py_str kv_d" by blast
    from prepare_write_faithful [OF nc_D Cons.prems(4)] obtain kv where
      e1: "map_of D (key (store w)) = Some kv" and e2: "map_of sd (key (store w)) = Some kv"
      and e3: "kk = sub_dir (store w) @ py_str kv" by blast
    from validated_key [OF val_d d2] validated_key [OF Cons.prems(5) e2] True d3 e3
    have "kv_d = kv" by auto
    with d1 e1 Cons.prems(7) have "d = D" by simp
    with pw_d Cons.prems(4) obs True show ?thesis by simp
  qed
  show ?case
    using Cons.IH [of w' rs] Cons.prems rest fs ob' st by simp
qed

lemma run_writes_object:
  assumes nc: "\<forall>D' \<in> insert D (set ds). \<not> clashes L (store w) D' sk"
    and run: "run_writes L sk ds w = (fs, w1)"
    and ok: "\<forall>r \<in> set fs. \<not> isl r"
    and D: "D \<in> set ds"
    and uniq: "\<forall>D' \<in> set ds. map_of D' (key (store w)) = map_of D (key (store w)) \<longrightarrow> D' = D"
  shows "\<exists>kk data sd h. prepare_write L (store w) D sk = Inr (kk, data, sd)
           \<and> Inr sd \<in> set fs
           \<and> list_all is_str (map snd sd)
           \<and> s3_bucket (store w) = Some h
           \<and> faults (backend w1) kk = None
           \<and> objects (backend w1) kk = Some \<lparr>body = data, metadata = sd\<rparr>"
  using assms
proof (induction ds arbitrary: w fs)
  case Nil
  then show ?case by simp
next
  case (Cons d ds)
  from Cons.prems(2) obtain r w' rs where
    wr: "write_doc_to_s3 L d sk w = (r, w')" and rest: "run_writes L sk ds w' = (rs, w1)"
    and fs: "fs = r # rs"
    unfolding run_writes_Cons by blast
  from Cons.prems(3) fs obtain sd_d where r: "r = Inr sd_d"
    by (cases r) auto
  from write_doc_to_s3_ok [OF wr [unfolded r]] obtain kk_d data_d h where
    pw_d: "prepare_write L (store w) d sk = Inr (kk_d, data_d, sd_d)"
    and h: "s3_bucket (store w) = Some h"
    and val_d: "list_all is_str (map snd sd_d)"
    and flt: "faults (backend w) kk_d = None"
    and st: "store w' = store w"
    and fl: "faults (backend w') = faults (backend w)"
    and obs: "objects (backend w') = (objects (backend w))(kk_d \<mapsto> \<lparr>body = data_d, metadata = sd_d\<rparr>)"
    by blast
  have fl1: "faults (backend w1) = faults (backend w')"
    using rest
  proof (induction ds arbitrary: w' rs)
    case Nil
    then show ?case by simp
  next
    case (Cons a ds)
    from Cons.prems obtain r2 w2 rs2 where
      a: "write_doc_to_s3 L a sk w' = (r2, w2)" and b: "run_writes L sk ds w2 = (rs2, w1)"
      unfolding run_writes_Cons by blast
    have "faults (backend w2) = faults (backend w')"
      using a
      by (auto simp: write_doc_to_s3_def s3_put_object_def log_event_def Let_def
               split: sum.splits option.splits prod.splits if_splits)
    with Cons.IH [OF b] show ?case by simp
  qed
  show ?case
  proof (cases "D \<in> set ds")
    case True
    from Cons.IH [of w' rs] Cons.prems rest fs st True
    show ?thesis by (simp add: h) blast
  next
    case False
    with Cons.prems(4) have dD: "d = D" by simp
    have "objects (backend w') kk_d = Some \<lparr>body = data_d, metadata = sd_d\<rparr>"
      using obs by simp
    from run_writes_keeps_object [where w = w' and ds = ds and fs = rs and D = D and kk = kk_d
           and data = data_d and sd = sd_d and L = L and sk = sk and ?w1.0 = w1]
         Cons.prems rest fs st pw_d val_d this dD
    have "objects (backend w1) kk_d = Some \<lparr>body = data_d, metadata = sd_d\<rparr>"
      by simp
    then show ?thesis
      using pw_d dD fs r val_d h flt fl fl1 by auto
  qed
qed


lemma run_writes_results:
  "run_writes L sk ds w = (fs, w1) \<Longrightarrow> Inr sd \<in> set fs \<Longrightarrow>
   \<exists>D' \<in> set ds. \<exists>kk data. prepare_write L (store w) D' sk = Inr (kk, data, sd)"
proof (induction ds arbitrary: w fs)
  case Nil
  then show ?case by simp
next
  case (Cons d ds)
  from Cons.prems(1) obtain r w' rs where
    wr: "write_doc_to_s3 L d sk w = (r, w')" and rest: "run_writes L sk ds w' = (rs, w1)"
    and fs: "fs = r # rs"
    unfolding run_writes_Cons by blast
  have st: "store w' = store w"
    using write_doc_to_s3_frame [of L d sk w] wr by simp
  show ?case
  proof (cases "r = Inr sd")
    case True
    from write_doc_to_s3_ok [OF wr [unfolded True]] show ?thesis by auto
  next
    case False
    with Cons.prems(2) fs have "Inr sd \<in> set rs" by simp
    from Cons.IH [OF rest this] st show ?thesis by auto
  qed
qed

lemma results_ok:
  "results fs = Inr sds \<Longrightarrow> (\<forall>r \<in> set fs. \<not> isl r) \<and> set sds = {sd. Inr sd \<in> set fs}"
  by (induction fs arbitrary: sds rule: results.induct) (auto split: sum.splits)

lemma upsert_same: "sole_entry k sd (upsert k sd ds)"
  by (auto simp: sole_entry_def upsert_def)

lemma upsert_other:
  "sole_entry k sd ds \<Longrightarrow> map_of x k \<noteq> map_of sd k \<Longrightarrow> sole_entry k sd (upsert k x ds)"
  by (auto simp: sole_entry_def upsert_def)

lemma idx_update_docs_keeps:
  assumes "idx_update_docs k sds ds = Inr ds'"
    and "sole_entry k sd ds"
    and "\<forall>x \<in> set sds. map_of x k = map_of sd k \<longrightarrow> x = sd"
  shows "sole_entry k sd ds'"
  using assms
proof (induction sds arbitrary: ds)
  case Nil
  then show ?case by simp
next
  case (Cons x sds)
  from Cons.prems(1) have rest: "idx_update_docs k sds (upsert k x ds) = Inr ds'"
    by (simp split: option.splits)
  have "sole_entry k sd (upsert k x ds)"
  proof (cases "map_of x k = map_of sd k")
    case True
    with Cons.prems(3) have "x = sd" by simp
    then show ?thesis by (simp add: upsert_same)
  next
    case False
    with Cons.prems(2) show ?thesis by (rule upsert_other)
  qed
  from Cons.IH [OF rest this] Cons.prems(3) show ?case by simp
qed

lemma idx_update_docs_puts:
  assumes "idx_update_docs k sds ds = Inr ds'"
    and "sd \<in> set sds"
    and "\<forall>x \<in> set sds. map_of x k = map_of sd k \<longrightarrow> x = sd"
  shows "sole_entry k sd ds'"
  using assms
proof (induction sds arbitrary: ds)
  case Nil
  then show ?case by simp
next
  case (Cons x sds)
  from Cons.prems(1) have rest: "idx_update_docs k sds (upsert k x ds) = Inr ds'"
    by (simp split: option.splits)
  show ?case
  proof (cases "x = sd")
    case True
    have "sole_entry k sd (upsert k x ds)"
      unfolding True by (rule upsert_same)
    from idx_update_docs_keeps [OF rest this] Cons.prems(3) show ?thesis by simp
  next
    case False
    with Cons.prems(2) have "sd \<in> set sds" by simp
    from Cons.IH [OF rest this] Cons.prems(3) show ?thesis by simp
  qed
qed

lemma query_entry_reads_blob:
  assumes "s3_bucket (store w) = Some h"
    and "map_of e (key (store w)) = Some (VStr ks)"
    and "faults (backend w) (sub_dir (store w) @ ks) = None"
    and "objects (backend w) (sub_dir (store w) @ ks) = Some ob"
    and "(map_of e ''compression'' = Some (VStr ''zlib'')) = c"
    and "(if c then zlib_decompress L (body ob) else Inr (body ob)) = Inr b"
    and "unpackb L b = Inr v"
  shows "fst (query_entry L PNone e w) = Yield v"
  using assms
  by (auto simp: query_entry_def fetched_def getitem_def str_add_def s3_get_def Let_def)

lemmas run_example =
  S3Store_update_def search_keys_of_def in_order_def write_doc_to_s3_def prepare_write_def
  getitem_def example_libs_def s3_put_object_def log_event_def ascii_def idx_update_def
  upsert_def set_index_def S3Store_query_def idx_query_def query_entry_def fetched_def
  s3_get_def str_add_def empty_world_def example_world_def example_store_def every_doc_def
  as_stored_def key_is_def quoted_def Let_def S3Store_update_under_def keyed_on_def

lemma query_loop_all_yield:
  assumes "\<forall>e \<in> set es. fst (query_entry L p e w) = Yield v"
  shows "fst (query_loop L p es w) = (map (\<lambda>e. v) es, None)"
  using assms
proof (induction es arbitrary: w)
  case Nil
  then show ?case by simp
next
  case (Cons e es)
  then have hd: "fst (query_entry L p e w) = Yield v" by simp
  obtain w' where qe: "query_entry L p e w = (Yield v, w')"
    using hd by (cases "query_entry L p e w") simp
  have fr: "store w' = store w" "backend w' = backend w"
    using query_entry_frame [of L p e w] qe by simp_all
  have "\<forall>x \<in> set es. fst (query_entry L p x w') = Yield v"
    using Cons.prems query_entry_cong [OF fr] by simp
  from Cons.IH [OF this] show ?case
    by (auto simp: qe split: prod.splits)
qed

lemma upsert_unique:
  assumes "distinct (map (\<lambda>e. map_of e k) ds)"
  shows "distinct (map (\<lambda>e. map_of e k) (upsert k d ds))"
proof (cases "\<exists>d' \<in> set ds. map_of d' k = map_of d k")
  case True
  have "map (\<lambda>e. map_of e k) (map (\<lambda>d'. if map_of d' k = map_of d k then d else d') ds)
      = map (\<lambda>e. map_of e k) ds"
    by (induction ds) simp_all
  moreover have "upsert k d ds = map (\<lambda>d'. if map_of d' k = map_of d k then d else d') ds"
    using True by (simp add: upsert_def)
  ultimately show ?thesis using assms by (simp only:)
next
  case False
  with assms show ?thesis by (auto simp: upsert_def)
qed

lemma idx_update_docs_unique:
  "idx_update_docs k sds ds = Inr ds' \<Longrightarrow> distinct (map (\<lambda>e. map_of e k) ds) \<Longrightarrow>
   distinct (map (\<lambda>e. map_of e k) ds')"
proof (induction sds arbitrary: ds)
  case Nil
  then show ?case by simp
next
  case (Cons x sds)
  from Cons.prems(1) have rest: "idx_update_docs k sds (upsert k x ds) = Inr ds'"
    by (simp split: option.splits)
  from Cons.IH [OF rest upsert_unique [OF Cons.prems(2)]] show ?case .
qed

lemma filter_unique_key:
  "distinct (map f ds) \<Longrightarrow> sd \<in> set ds \<Longrightarrow> filter (\<lambda>e. f e = f sd) ds = [sd]"
proof (induction ds)
  case Nil
  then show ?case by simp
next
  case (Cons x ds)
  show ?case
  proof (cases "x = sd")
    case True
    from Cons.prems(1) have "f x \<notin> f ` set ds" by simp
    then have "\<forall>e \<in> set ds. f e \<noteq> f x" by (metis imageI)
    with True show ?thesis by (simp add: filter_empty_conv)
  next
    case False
    with Cons.prems have in_ds: "sd \<in> set ds" and "f x \<notin> f ` set ds" by auto
    then have "f x \<noteq> f sd" by auto
    with Cons.IH Cons.prems(1) in_ds show ?thesis by simp
  qed
qed

text \<open>
  C2, as stated, fails, in three ways, each after an \<open>update\<close> that returns normally
  (under the executor of Python 3.8; under a later one \<open>update\<close> raises). On a store that
  does not compress, a document with the field \<open>compression = "zlib"\<close>, written with
  \<open>compression\<close> as the search key, has that field copied into its index entry, where
  \<open>query\<close> reads it as the store's marker and decompresses a blob that was never
  compressed: the query yields nothing and raises. Of two documents with the same key
  value in one batch the blob is that of the one written last: the query for the key
  yields it, and not the other. And on a store keyed on \<open>sub_dir\<close> the key value of the
  index entry is overwritten with the store's prefix: the query for the key value of the
  document finds no entry and yields nothing.
\<close>

theorem update_then_query_marker_clash:
  "fst (S3Store_update_under Fn_by_keyword example_libs in_order empty_world [doc_z]
          (KeyOne ''compression'')) = None
   \<and> fst (S3Store_query example_libs
            (snd (S3Store_update_under Fn_by_keyword example_libs in_order empty_world [doc_z]
                    (KeyOne ''compression'')))
            (key_is ''task_id'' (Some (VStr ''a''))) PNone as_stored 0 0)
         = ([], Some (LibError ''zlib''))
   \<and> fst (S3Store_update_under Fn_by_keyword example_libs in_order empty_world
            [doc_a, doc_a2] KeyNone) = None
   \<and> fst (S3Store_query example_libs
            (snd (S3Store_update_under Fn_by_keyword example_libs in_order empty_world
                    [doc_a, doc_a2] KeyNone))
            (key_is ''task_id'' (Some (VStr ''a''))) PNone as_stored 0 0)
         = ([VDict doc_a2], None)
   \<and> fst (S3Store_update_under Fn_by_keyword example_libs in_order
            (keyed_on ''sub_dir'' empty_world) [doc_s] KeyNone) = None
   \<and> fst (S3Store_query example_libs
            (snd (S3Store_update_under Fn_by_keyword example_libs in_order
                    (keyed_on ''sub_dir'' empty_world) [doc_s] KeyNone))
            (key_is ''sub_dir'' (Some (VStr ''x''))) PNone as_stored 0 0)
         = ([], None)"
  by (simp add: run_example doc_z_def doc_a_def doc_a2_def doc_b_def doc_c_def doc_s_def)

text \<open>
  C2, amended. Let the store's key field be that of its index, as the constructor makes
  it; let the pool run every task and hand back every future, and the sort of the index
  permute the entries; let the libraries round-trip \<open>D\<close>. If an \<open>update\<close> of a batch
  returns normally, under either executor, where for no document of the batch the
  bookkeeping of its index entry clashes with its own fields (the entry has the key
  value of the document, and the compression marker exactly if the store compresses),
  and \<open>D\<close> is in the batch and no other document of the batch has its key value, then
  the query for the key value of \<open>D\<close>, without \<open>properties\<close> and with any sort and limit,
  finds an index entry, yields exactly \<open>D\<close> for every entry it finds, and raises nothing;
  where the index had no two entries of one key value before the update, what it yields
  is \<open>D\<close>, once. So the fields \<open>compression\<close> and \<open>sub_dir\<close> are in what is yielded only
  if \<open>D\<close> has fields of these names.
\<close>

theorem update_then_query_roundtrip:
  assumes fair: "fair s"
    and sorting: "\<forall>ds. mset (sort_by ds) = mset ds"
    and agree: "keys_agree w"
    and codec: "\<forall>b. packb L D = Inr b \<longrightarrow>
                  unpackb L b = Inr (VDict D) \<and> zlib_decompress L (zlib_compress L b) = Inr b"
    and noclash: "\<forall>D' \<in> set docs. \<not> clashes L (store w) D' (search_keys_of (store w) k)"
    and update: "S3Store_update_under ex L s w docs k = (None, w')"
    and D: "D \<in> set docs"
    and uniq: "\<forall>D' \<in> set docs. map_of D' (key (store w)) = map_of D (key (store w)) \<longrightarrow> D' = D"
    and criteria: "criteria = key_is (key (store w')) (map_of D (key (store w')))"
  shows "idx_query (index (store w')) criteria sort_by limit 0 \<noteq> []
       \<and> fst (S3Store_query L w' criteria PNone sort_by 0 limit)
           = (map (\<lambda>e. VDict D) (idx_query (index (store w')) criteria sort_by limit 0), None)
       \<and> (unique_keys w \<longrightarrow>
            fst (S3Store_query L w' criteria PNone sort_by 0 limit) = ([VDict D], None))"
proof -
  let ?sk = "search_keys_of (store w) k"
  let ?ds = "run_order s docs"
  from update have upd: "S3Store_update L s w docs k = (None, w')"
    by (simp add: S3Store_update_under_def split: if_splits)
  obtain fs w1 where run: "run_writes L ?sk ?ds w = (fs, w1)"
    by (cases "run_writes L ?sk ?ds w") auto
  from fair have set_ds: "set ?ds = set docs" and set_fs: "set (done_order s fs) = set fs"
    unfolding fair_def by (metis set_mset_mset)+
  from upd run obtain sds idx where
    res: "results (done_order s fs) = Inr sds"
    and idx: "idx_update (index (store w1)) sds = Inr idx"
    and w': "w' = log_event (EvIndexUpdate sds) (set_index idx w1)"
    by (auto simp: S3Store_update_def Let_def split: if_splits sum.splits)
  from results_ok [OF res] set_fs have ok: "\<forall>r \<in> set fs. \<not> isl r"
    and sds: "set sds = {sd. Inr sd \<in> set fs}" by auto
  have st1: "store w1 = store w"
    using run_writes_frame [of L ?sk ?ds w] run by simp
  have D': "D \<in> set ?ds"
    and uniq': "\<forall>D' \<in> set ?ds. map_of D' (key (store w)) = map_of D (key (store w)) \<longrightarrow> D' = D"
    using D uniq set_ds by simp_all
  have nc: "\<forall>D' \<in> insert D (set ?ds). \<not> clashes L (store w) D' ?sk"
    using noclash D set_ds by simp
  from run_writes_object [OF nc run ok D' uniq']
  obtain kk data sd h where pw: "prepare_write L (store w) D ?sk = Inr (kk, data, sd)"
    and sd_in: "Inr sd \<in> set fs" and val: "list_all is_str (map snd sd)"
    and h: "s3_bucket (store w) = Some h" and flt: "faults (backend w1) kk = None"
    and ob: "objects (backend w1) kk = Some \<lparr>body = data, metadata = sd\<rparr>"
    by blast
  from nc have nc_D: "\<not> clashes L (store w) D ?sk" by simp
  from prepare_write_faithful [OF nc_D pw] obtain kv b where
    kD: "map_of D (key (store w)) = Some kv" and ksd: "map_of sd (key (store w)) = Some kv"
    and kk: "kk = sub_dir (store w) @ py_str kv" and b: "packb L D = Inr b"
    and data: "data = (if compress (store w) then zlib_compress L b else b)"
    and marker: "(map_of sd ''compression'' = Some (VStr ''zlib'')) = compress (store w)"
    by blast
  from validated_key [OF val ksd] obtain ks where ks: "kv = VStr ks" by blast
  have uniq_sd: "\<forall>x \<in> set sds. map_of x (key (store w)) = map_of sd (key (store w)) \<longrightarrow> x = sd"
  proof (intro ballI impI)
    fix x assume x: "x \<in> set sds" and eq: "map_of x (key (store w)) = map_of sd (key (store w))"
    from x sds have "Inr x \<in> set fs" by simp
    from run_writes_results [OF run this] obtain D' kk' data' where
      D': "D' \<in> set ?ds" and pw': "prepare_write L (store w) D' ?sk = Inr (kk', data', x)"
      by blast
    from nc D' have "\<not> clashes L (store w) D' ?sk" by simp
    from prepare_write_faithful [OF this pw'] obtain kv' where
      "map_of D' (key (store w)) = Some kv'" and "map_of x (key (store w)) = Some kv'"
      by blast
    with eq ksd kD have "map_of D' (key (store w)) = map_of D (key (store w))" by simp
    with uniq D' set_ds have "D' = D" by simp
    with pw pw' show "x = sd" by simp
  qed
  from idx have upd_docs: "idx_update_docs (ikey (index (store w1))) sds (idocs (index (store w1)))
      = Inr (idocs idx)"
    by (auto simp: idx_update_def split: sum.splits)
  have ik: "ikey (index (store w1)) = key (store w)"
    using agree st1 by (simp add: keys_agree_def)
  from sd_in sds have "sd \<in> set sds" by simp
  from idx_update_docs_puts [OF upd_docs [unfolded ik] this uniq_sd]
  have sole: "sole_entry (key (store w)) sd (idocs idx)" .
  have st': "key (store w') = key (store w)" "sub_dir (store w') = sub_dir (store w)"
    "s3_bucket (store w') = Some h" "idocs (index (store w')) = idocs idx"
    "backend w' = backend w1"
    using st1 h by (simp_all add: w' log_event_def set_index_def)
  have dec: "(if compress (store w) then zlib_decompress L (body \<lparr>body = data, metadata = sd\<rparr>)
              else Inr (body \<lparr>body = data, metadata = sd\<rparr>)) = Inr b"
    using codec b data by simp
  have yields: "fst (query_entry L PNone sd w') = Yield (VDict D)"
  proof (rule query_entry_reads_blob [where c = "compress (store w)"])
    show "s3_bucket (store w') = Some h" by (rule st')
    show "map_of sd (key (store w')) = Some (VStr ks)" using st' ksd ks by simp
    show "faults (backend w') (sub_dir (store w') @ ks) = None" using st' flt kk ks by simp
    show "objects (backend w') (sub_dir (store w') @ ks) = Some \<lparr>body = data, metadata = sd\<rparr>"
      using st' ob kk ks by simp
    show "(map_of sd ''compression'' = Some (VStr ''zlib'')) = compress (store w)" by (rule marker)
    show "(if compress (store w) then zlib_decompress L (body \<lparr>body = data, metadata = sd\<rparr>)
              else Inr (body \<lparr>body = data, metadata = sd\<rparr>)) = Inr b" by (rule dec)
    show "unpackb L b = Inr (VDict D)" using codec b by simp
  qed
  let ?F = "filter criteria (idocs idx)"
  let ?S = "sort_by ?F"
  let ?es = "idx_query (index (store w')) criteria sort_by limit 0"
  have crit: "criteria = (\<lambda>e. map_of e (key (store w)) = map_of sd (key (store w)))"
    using criteria st' ksd kD by (simp add: key_is_def fun_eq_iff)
  from sole have sd_in_idx: "sd \<in> set (idocs idx)"
    and only: "\<forall>e \<in> set (idocs idx). map_of e (key (store w)) = map_of sd (key (store w)) \<longrightarrow> e = sd"
    by (simp_all add: sole_entry_def)
  have F: "set ?F = {sd}"
    using sd_in_idx only by (auto simp: crit)
  from sorting have S_mset: "mset ?S = mset ?F" by simp
  then have S: "set ?S = {sd}"
    using F by (metis set_mset_mset)
  have es: "?es = (if limit = 0 then ?S else take limit ?S)"
    by (simp add: idx_query_def st')
  from S have S_ne: "?S \<noteq> []" by (metis insert_not_empty set_empty)
  have es_ne: "?es \<noteq> []"
    unfolding es using S_ne by (cases "limit = 0") simp_all
  have "set ?es \<subseteq> set ?S"
    unfolding es by (cases "limit = 0") (simp_all add: set_take_subset)
  with S have es_sd: "\<forall>e \<in> set ?es. e = sd"
    by blast
  let ?wq = "log_event EvIndexQuery w'"
  have fr: "store ?wq = store w'" "backend ?wq = backend w'"
    by (simp_all add: log_event_def)
  have "\<forall>e \<in> set ?es. fst (query_entry L PNone e ?wq) = Yield (VDict D)"
  proof
    fix e
    assume "e \<in> set ?es"
    with es_sd have "e = sd" by blast
    then show "fst (query_entry L PNone e ?wq) = Yield (VDict D)"
      using yields query_entry_cong [OF fr, of L PNone sd] by simp
  qed
  from query_loop_all_yield [OF this]
  have q: "fst (S3Store_query L w' criteria PNone sort_by 0 limit) = (map (\<lambda>e. VDict D) ?es, None)"
    by (simp add: S3Store_query_def)
  have one: "?es = [sd]" if "unique_keys w"
  proof -
    from that st1 have "distinct (map (\<lambda>e. map_of e (key (store w))) (idocs (index (store w1))))"
      by (simp add: unique_keys_def)
    from idx_update_docs_unique [OF upd_docs [unfolded ik] this]
    have "distinct (map (\<lambda>e. map_of e (key (store w))) (idocs idx))" .
    from filter_unique_key [OF this sd_in_idx] have "?F = [sd]"
      by (simp add: crit)
    with S_mset have "?S = [sd]" by simp
    then show ?thesis by (simp add: es)
  qed
  show ?thesis
    using es_ne q one by simp
qed

theorem update_then_query_roundtrip_witness:
  "fst (S3Store_update_under Fn_by_keyword example_libs in_order empty_world [doc_a, doc_b]
          KeyNone) = None
   \<and> fst (S3Store_query example_libs
            (snd (S3Store_update_under Fn_by_keyword example_libs in_order empty_world
                    [doc_a, doc_b] KeyNone))
            (key_is ''task_id'' (Some (VStr ''b''))) PNone as_stored 0 0) = ([VDict doc_b], None)"
proof -
  let ?u = "S3Store_update_under Fn_by_keyword example_libs in_order empty_world [doc_a, doc_b]
              KeyNone"
  have fair: "fair in_order"
    by (simp add: fair_def in_order_def)
  have sorting: "\<forall>ds. mset (as_stored ds) = mset ds"
    by (simp add: as_stored_def)
  have agree: "keys_agree empty_world"
    by (simp add: keys_agree_def empty_world_def example_world_def example_store_def)
  have unique: "unique_keys empty_world"
    by (simp add: unique_keys_def empty_world_def example_world_def example_store_def)
  have noclash: "\<forall>D' \<in> set [doc_a, doc_b].
      \<not> clashes example_libs (store empty_world) D' (search_keys_of (store empty_world) KeyNone)"
    by (simp add: clashes_def prepare_write_def getitem_def search_keys_of_def example_libs_def
          empty_world_def example_world_def example_store_def doc_a_def doc_b_def)
  have codec: "\<forall>b. packb example_libs doc_b = Inr b \<longrightarrow>
      unpackb example_libs b = Inr (VDict doc_b)
      \<and> zlib_decompress example_libs (zlib_compress example_libs b) = Inr b"
    by (simp add: example_libs_def doc_a_def doc_b_def quoted_def)
  have ok: "fst ?u = None"
    by (simp add: run_example doc_a_def doc_b_def)
  then have upd: "?u = (None, snd ?u)"
    by (metis prod.collapse)
  have D: "doc_b \<in> set [doc_a, doc_b]"
    by simp
  have uniq: "\<forall>D' \<in> set [doc_a, doc_b].
      map_of D' (key (store empty_world)) = map_of doc_b (key (store empty_world)) \<longrightarrow> D' = doc_b"
    by (simp add: empty_world_def example_world_def example_store_def doc_a_def doc_b_def)
  have c: "key_is ''task_id'' (Some (VStr ''b''))
      = key_is (key (store (snd ?u))) (map_of doc_b (key (store (snd ?u))))"
    by (simp add: run_example doc_a_def doc_b_def)
  from update_then_query_roundtrip [OF fair sorting agree codec noclash upd D uniq c, of 0] unique
  have "fst (S3Store_query example_libs (snd ?u) (key_is ''task_id'' (Some (VStr ''b'')))
          PNone as_stored 0 0) = ([VDict doc_b], None)"
    by blast
  with ok show ?thesis
    by simp
qed

subsection \<open>String keys\<close>

text \<open>
  The index entries that \<open>update\<close> commits are the metadata of objects that the bucket
  client accepted, so their values are strings: an index whose key values are strings
  stays one under \<open>update\<close>, and \<open>distinct\<close> on the key field then returns strings.
\<close>

lemma run_writes_validated:
  "run_writes L sk ds w = (fs, w1) \<Longrightarrow> Inr sd \<in> set fs \<Longrightarrow> list_all is_str (map snd sd)"
proof (induction ds arbitrary: w fs)
  case Nil
  then show ?case by simp
next
  case (Cons d ds)
  from Cons.prems(1) obtain r w' rs where
    wr: "write_doc_to_s3 L d sk w = (r, w')" and rest: "run_writes L sk ds w' = (rs, w1)"
    and fs: "fs = r # rs"
    unfolding run_writes_Cons by blast
  show ?case
  proof (cases "r = Inr sd")
    case True
    from write_doc_to_s3_ok [OF wr [unfolded True]] show ?thesis by blast
  next
    case False
    with Cons.prems(2) fs have "Inr sd \<in> set rs" by simp
    from Cons.IH [OF rest this] show ?thesis .
  qed
qed

lemma upsert_subset: "set (upsert k d ds) \<subseteq> insert d (set ds)"
  by (auto simp: upsert_def)

lemma idx_update_docs_subset:
  "idx_update_docs k new ds = Inr ds' \<Longrightarrow> set ds' \<subseteq> set new \<union> set ds"
proof (induction new arbitrary: ds)
  case Nil
  then show ?case by simp
next
  case (Cons d new)
  from Cons.prems have "idx_update_docs k new (upsert k d ds) = Inr ds'"
    by (simp split: option.splits)
  from Cons.IH [OF this] upsert_subset [of k d ds] show ?case by auto
qed

lemma is_str_validated:
  "list_all is_str (map snd sd) \<Longrightarrow> map_of sd k = Some v \<Longrightarrow> is_str v"
proof -
  assume a: "list_all is_str (map snd sd)" and "map_of sd k = Some v"
  then have "(k, v) \<in> set sd" by (simp add: map_of_SomeD)
  with a show "is_str v" by (force simp: list_all_iff)
qed

lemma update_keeps_string_keys:
  assumes "fair s" and "string_keys w"
  shows "string_keys (snd (S3Store_update L s w docs k))"
proof (cases "s3_workers (store w) \<le> 0")
  case True
  with assms show ?thesis by (simp add: S3Store_update_def)
next
  case False
  let ?sk = "search_keys_of (store w) k"
  obtain fs w1 where run: "run_writes L ?sk (run_order s docs) w = (fs, w1)"
    by (cases "run_writes L ?sk (run_order s docs) w") auto
  have st1: "store w1 = store w"
    using run_writes_frame [of L ?sk "run_order s docs" w] run by simp
  from assms(1) have set_fs: "set (done_order s fs) = set fs"
    unfolding fair_def by (metis set_mset_mset)
  show ?thesis
  proof (cases "results (done_order s fs)")
    case (Inl e)
    with False run st1 assms(2) show ?thesis
      by (simp add: S3Store_update_def string_keys_def)
  next
    case (Inr sds)
    show ?thesis
    proof (cases "idx_update (index (store w1)) sds")
      case (Inl e)
      with False run st1 assms(2) Inr show ?thesis
        by (simp add: S3Store_update_def string_keys_def log_event_def)
    next
      case idx: (Inr idx)
      from results_ok [OF Inr] set_fs have "\<forall>sd \<in> set sds. Inr sd \<in> set fs"
        by simp
      then have val: "\<forall>sd \<in> set sds. list_all is_str (map snd sd)"
        using run_writes_validated [OF run] by blast
      from idx have "idx_update_docs (ikey (index (store w1))) sds (idocs (index (store w1)))
          = Inr (idocs idx)"
        by (auto simp: idx_update_def split: sum.splits)
      from idx_update_docs_subset [OF this]
      have sub: "set (idocs idx) \<subseteq> set sds \<union> set (idocs (index (store w)))"
        using st1 by simp
      have "\<forall>e \<in> set (idocs idx). \<forall>v. map_of e (key (store w)) = Some v \<longrightarrow> is_str v"
      proof (intro ballI allI impI)
        fix e v assume e: "e \<in> set (idocs idx)" and v: "map_of e (key (store w)) = Some v"
        from e sub consider "e \<in> set sds" | "e \<in> set (idocs (index (store w)))" by blast
        then show "is_str v"
        proof cases
          case 1
          with val have "list_all is_str (map snd e)" by simp
          then show ?thesis using v by (rule is_str_validated)
        next
          case 2
          with assms(2) v show ?thesis by (simp add: string_keys_def)
        qed
      qed
      then show ?thesis
        using False run st1 Inr idx
        by (simp add: S3Store_update_def string_keys_def log_event_def set_index_def)
    qed
  qed
qed

lemma string_keys_distinct:
  assumes "string_keys w"
  shows "\<exists>ks. idx_distinct (index (store w)) (key (store w)) criteria = map VStr ks"
proof -
  let ?vs = "idx_distinct (index (store w)) (key (store w)) criteria"
  have "\<forall>v \<in> set ?vs. is_str v"
    using assms by (auto simp: idx_distinct_def string_keys_def List.map_filter_def)
  moreover have "is_str v \<Longrightarrow> v = VStr (py_str v)" for v
    by (cases v) (simp_all add: is_str_def)
  ultimately have "\<forall>v \<in> set ?vs. v = VStr (py_str v)"
    by blast
  then have "?vs = map VStr (map py_str ?vs)"
    by (simp add: map_idI)
  then show ?thesis ..
qed

section \<open>Properties of the timestamps\<close>

lemma digit_char_digit: "d < 10 \<Longrightarrow> is_digit (digit_char d) \<and> of_char (digit_char d) - 48 = d"
  by (simp add: is_digit_def digit_char_def)

lemma length_fixed_digits [simp]: "length (fixed_digits w n) = w"
  by (induction w arbitrary: n) simp_all

lemma fixed_digits_digits: "list_all is_digit (fixed_digits w n)"
  by (induction w arbitrary: n) (simp_all add: digit_char_digit)

lemma digits_value_fixed: "digits_value (fixed_digits w n) = n mod 10 ^ w"
proof (induction w arbitrary: n)
  case 0
  then show ?case by (simp add: digits_value_def)
next
  case (Suc w)
  have all: "filter is_digit (fixed_digits w (n div 10)) = fixed_digits w (n div 10)"
    using fixed_digits_digits [of w "n div 10"] by (simp add: list_all_iff)
  have "digits_value (fixed_digits (Suc w) n)
      = 10 * digits_value (fixed_digits w (n div 10)) + n mod 10"
    using digit_char_digit [of "n mod 10"]
    by (simp add: digits_value_def)
  also have "\<dots> = 10 * ((n div 10) mod 10 ^ w) + n mod 10"
    by (simp add: Suc.IH)
  also have "\<dots> = n mod 10 ^ Suc w"
    by (simp add: mod_mult2_eq)
  finally show ?case .
qed

lemma take_num_fixed:
  "n < 10 ^ w \<Longrightarrow> take_num w (fixed_digits w n @ r) = Some (n, r)"
  by (simp add: take_num_def fixed_digits_digits digits_value_fixed)

lemma expect_Cons [simp]: "expect c (c # r) = Some r"
  by (simp add: expect_def)

lemma parse_seconds_isoformat:
  assumes "valid_datetime t"
  shows "parse_seconds (isoformat_ms t)
     = Some ((year t, month t, day t, hour t, minute t, second t),
             CHR ''.'' # fixed_digits 3 (microsecond t div 1000))"
proof -
  have d: "days_in_month (year t) (month t) \<le> 31"
    by (simp add: days_in_month_def)
  from assms d have b: "year t < 10 ^ 4" "month t < 10 ^ 2" "day t < 10 ^ 2"
    "hour t < 10 ^ 2" "minute t < 10 ^ 2" "second t < 10 ^ 2"
    by (simp_all add: valid_datetime_def)
  show ?thesis
    unfolding parse_seconds_def isoformat_ms_def
    by (simp add: take_num_fixed [OF b(1)] take_num_fixed [OF b(2)] take_num_fixed [OF b(3)]
          take_num_fixed [OF b(4)] take_num_fixed [OF b(5)] take_num_fixed [OF b(6)])
qed

lemma ms_bound: "us < 1000000 \<Longrightarrow> us div 1000 < (1000::nat)"
  by (simp add: less_mult_imp_div_less)

lemma floor_le: "us div 1000 * 1000 \<le> (us::nat)"
  by simp

lemma valid_floor_ms: "valid_datetime t \<Longrightarrow> valid_datetime (floor_ms t)"
  using ms_bound [of "microsecond t"] by (simp add: valid_datetime_def floor_ms_def)

lemma strptime_fraction_isoformat:
  assumes "valid_datetime t"
  shows "strptime_fraction (isoformat_ms t) = Inr (floor_ms t)"
proof -
  from assms have "microsecond t div 1000 < 10 ^ 3"
    using ms_bound [of "microsecond t"] by (simp add: valid_datetime_def)
  then have v: "digits_value (fixed_digits 3 (microsecond t div 1000)) = microsecond t div 1000"
    by (simp add: digits_value_fixed)
  have m: "make_datetime (year t) (month t) (day t) (hour t) (minute t) (second t)
             (microsecond t div 1000 * 1000) = Inr (floor_ms t)"
    using valid_floor_ms [OF assms] by (cases t) (simp add: make_datetime_def floor_ms_def)
  show ?thesis
    unfolding strptime_fraction_def parse_seconds_isoformat [OF assms]
    using m by (simp add: v fixed_digits_digits)
qed

lemma isostr_to_dt_isoformat:
  "valid_datetime t \<Longrightarrow> isostr_to_dt (isoformat_ms t) = Inr (floor_ms t)"
  by (simp add: isostr_to_dt_def strptime_fraction_isoformat)

lemma next_ms_later: "us < (us + 1000) div 1000 * (1000::nat)"
proof -
  have "(us + 1000) div 1000 = us div 1000 + 1" by simp
  moreover have "us = us div 1000 * 1000 + us mod 1000" by simp
  moreover have "us mod 1000 < 1000" by simp
  ultimately show ?thesis by (metis add.commute add_Suc_right add_less_cancel_left
    mult_Suc plus_1_eq_Suc)
qed

lemma days_in_month_pos: "1 \<le> days_in_month y m"
  by (simp add: days_in_month_def)

lemma add_millisecond_overflow:
  "valid_datetime t \<Longrightarrow> (add_millisecond t = Inl OverflowError) = last_millisecond t"
  by (auto simp: add_millisecond_def next_day_def valid_datetime_def last_millisecond_def
        days_in_month_def Let_def)

lemma add_millisecond_later:
  assumes "valid_datetime t" and "add_millisecond t = Inr u"
  shows "valid_datetime u \<and> dt_less t (floor_ms u)"
proof (cases "microsecond t + 1000 < 1000000")
  case True
  with assms(2) have u: "u = t\<lparr>microsecond := microsecond t + 1000\<rparr>"
    by (simp add: add_millisecond_def)
  show ?thesis
    using assms(1) True next_ms_later [of "microsecond t"]
    by (simp add: u valid_datetime_def dt_less_def dt_fields_def floor_ms_def)
next
  case False
  with assms show ?thesis
    using days_in_month_pos [of "year t" "month t + 1"] days_in_month_pos [of "year t + 1" 1]
    by (auto simp: add_millisecond_def next_day_def valid_datetime_def dt_less_def dt_fields_def
          floor_ms_def Let_def split: if_splits)
qed

lemma same_ms_isoformat: "same_ms a b \<Longrightarrow> isoformat_ms a = isoformat_ms b"
proof -
  assume "same_ms a b"
  then have f: "floor_ms a = floor_ms b" by (simp add: same_ms_def)
  from arg_cong [OF f, of year] arg_cong [OF f, of month] arg_cong [OF f, of day]
    arg_cong [OF f, of hour] arg_cong [OF f, of minute] arg_cong [OF f, of second]
    arg_cong [OF f, of microsecond]
  show ?thesis
    by (simp add: floor_ms_def isoformat_ms_def)
qed

lemma fixed_digits_2: "fixed_digits 2 n = [digit_char (n div 10 mod 10), digit_char (n mod 10)]"
  by (simp add: numeral_2_eq_2)

lemma fixed_digits_3:
  "fixed_digits 3 n =
     [digit_char (n div 10 div 10 mod 10), digit_char (n div 10 mod 10), digit_char (n mod 10)]"
  by (simp add: numeral_3_eq_3)

lemma fixed_digits_4:
  "fixed_digits 4 n =
     [digit_char (n div 10 div 10 div 10 mod 10), digit_char (n div 10 div 10 mod 10),
      digit_char (n div 10 mod 10), digit_char (n mod 10)]"
proof -
  have "fixed_digits (Suc 3) n = fixed_digits 3 (n div 10) @ [digit_char (n mod 10)]"
    by (rule fixed_digits.simps)
  then show ?thesis by (simp add: fixed_digits_3)
qed

lemma digit_chars:
  "digit_char 0 = CHR ''0''" "digit_char (Suc 0) = CHR ''1''" "digit_char 2 = CHR ''2''"
  "digit_char 3 = CHR ''3''" "digit_char 4 = CHR ''4''" "digit_char 5 = CHR ''5''"
  "digit_char 6 = CHR ''6''" "digit_char 7 = CHR ''7''" "digit_char 8 = CHR ''8''"
  "digit_char 9 = CHR ''9''"
  by (simp_all add: digit_char_def char_of_def bit_iff_odd)

lemma iso_500: "isoformat_ms (new_year\<lparr>microsecond := 500\<rparr>) = ''2024-01-01T00:00:00.000''"
  by (simp add: new_year_def isoformat_ms_def fixed_digits_2 fixed_digits_3 fixed_digits_4 digit_chars)

text \<open>
  C6, as stated, fails: the last datetime there is cannot be normalised, since adding a
  millisecond to it is an \<open>OverflowError\<close>.
\<close>

theorem ceil_ms_overflows_at_max:
  "valid_datetime datetime_max \<and> dt_to_isoformat_ceil_ms datetime_max = Inl OverflowError"
  by (simp add: datetime_max_def valid_datetime_def days_in_month_def dt_to_isoformat_ceil_ms_def
        add_millisecond_def next_day_def)

text \<open>
  C6, amended. For every naive datetime \<open>t\<close> before the last millisecond of the year
  9999, the normalisation of \<open>t\<close> parses, and to a datetime that is greater than or equal
  to \<open>t\<close>; and a datetime whose sum with one millisecond is in the same millisecond as
  that of \<open>t\<close> is normalised to the same string.
\<close>

theorem ceil_ms_parses_later:
  assumes "valid_datetime t" and "\<not> last_millisecond t"
  shows "(\<exists>s u. dt_to_isoformat_ceil_ms t = Inr s \<and> isostr_to_dt s = Inr u \<and> dt_ge u t)
       \<and> (\<forall>t' a b. add_millisecond t = Inr a \<longrightarrow> add_millisecond t' = Inr b \<longrightarrow> same_ms a b
             \<longrightarrow> dt_to_isoformat_ceil_ms t' = dt_to_isoformat_ceil_ms t)"
proof -
  from assms add_millisecond_overflow [OF assms(1)]
  have "add_millisecond t \<noteq> Inl OverflowError" by simp
  moreover have "add_millisecond t = Inl e \<Longrightarrow> e = OverflowError" for e
    by (auto simp: add_millisecond_def next_day_def Let_def split: if_splits)
  ultimately obtain a where a: "add_millisecond t = Inr a"
    by (cases "add_millisecond t") auto
  from add_millisecond_later [OF assms(1) a]
  have va: "valid_datetime a" and later: "dt_less t (floor_ms a)" by simp_all
  have "dt_to_isoformat_ceil_ms t = Inr (isoformat_ms a)"
    by (simp add: dt_to_isoformat_ceil_ms_def a)
  moreover have "isostr_to_dt (isoformat_ms a) = Inr (floor_ms a)"
    using va by (rule isostr_to_dt_isoformat)
  moreover have "dt_ge (floor_ms a) t"
    using later by (simp add: dt_ge_def)
  moreover have "dt_to_isoformat_ceil_ms t' = dt_to_isoformat_ceil_ms t"
    if "add_millisecond t' = Inr b" and "same_ms a b" for t' b
    using that a same_ms_isoformat [of a b] by (simp add: dt_to_isoformat_ceil_ms_def)
  ultimately show ?thesis
    using a by auto
qed

theorem ceil_ms_parses_later_witness:
  "dt_to_isoformat_ceil_ms new_year_eve = Inr ''2024-01-01T00:00:00.000''
   \<and> isostr_to_dt ''2024-01-01T00:00:00.000'' = Inr new_year
   \<and> dt_ge new_year new_year_eve
   \<and> dt_to_isoformat_ceil_ms (new_year_eve\<lparr>microsecond := 999900\<rparr>)
       = dt_to_isoformat_ceil_ms new_year_eve"
proof -
  let ?a = "new_year\<lparr>microsecond := 500\<rparr>"
  let ?b = "new_year\<lparr>microsecond := 900\<rparr>"
  have v: "valid_datetime new_year_eve"
    by (simp add: new_year_eve_def valid_datetime_def days_in_month_def)
  have n: "\<not> last_millisecond new_year_eve"
    by (simp add: new_year_eve_def last_millisecond_def)
  have a: "add_millisecond new_year_eve = Inr ?a"
    by (simp add: new_year_eve_def new_year_def add_millisecond_def next_day_def
          days_in_month_def)
  have b: "add_millisecond (new_year_eve\<lparr>microsecond := 999900\<rparr>) = Inr ?b"
    by (simp add: new_year_eve_def new_year_def add_millisecond_def next_day_def
          days_in_month_def)
  have fa: "floor_ms ?a = new_year" and fb: "floor_ms ?b = new_year"
    by (simp_all add: floor_ms_def new_year_def)
  have s: "dt_to_isoformat_ceil_ms new_year_eve = Inr ''2024-01-01T00:00:00.000''"
    unfolding dt_to_isoformat_ceil_ms_def a by (simp only: sum.case iso_500)
  note r = ceil_ms_parses_later [OF v n]
  from r obtain s' u where 1: "dt_to_isoformat_ceil_ms new_year_eve = Inr s'"
    and 2: "isostr_to_dt s' = Inr u" and 3: "dt_ge u new_year_eve"
    by blast
  from 1 s have s': "s' = ''2024-01-01T00:00:00.000''"
    by (simp only: sum.inject)
  have va: "valid_datetime ?a"
    using add_millisecond_later [OF v a] by (rule conjunct1)
  have p: "isostr_to_dt ''2024-01-01T00:00:00.000'' = Inr new_year"
    using isostr_to_dt_isoformat [OF va] unfolding iso_500 fa .
  from 2 p have u: "u = new_year"
    unfolding s' by (simp only: sum.inject)
  have same: "same_ms ?a ?b"
    unfolding same_ms_def fa fb ..
  from r a b same
  have e: "dt_to_isoformat_ceil_ms (new_year_eve\<lparr>microsecond := 999900\<rparr>)
       = dt_to_isoformat_ceil_ms new_year_eve"
    by blast
  from s p 3 [unfolded u] e show ?thesis
    by (intro conjI)
qed

end
